theory Spec2Isabelle
  imports Main "HOL-Library.Word"
begin

unbundle bit_operations_syntax

section \<open>Data model of lv\_pngle.c\<close>

text \<open>
  The C types: \<open>uint8_t\<close>, \<open>uint16_t\<close> and \<open>uint32_t\<close> are words of that width;
  \<open>int\<close> is a 32-bit two's-complement word (read with \<open>sint\<close>), which is what the
  integer promotions of the pixel arithmetic and of the chunk length compute in.
\<close>

type_synonym u8 = "8 word"
type_synonym u16 = "16 word"
type_synonym u32 = "32 word"
type_synonym c_int = "32 word"

datatype lv_res_t = LV_RES_INV | LV_RES_OK

text \<open>\<open>LV_COLOR_DEPTH\<close>: the build-time constant that selects one branch of every
  \<open>#if\<close> chain of the file.\<close>

datatype color_depth = Depth32 | Depth16 | Depth8 | Depth1

text \<open>
  The only block the file writes through a pointer is the pixel buffer, so a pointer
  into it is its offset from the block's base: \<open>Buf k\<close> is \<open>base + k\<close>. \<open>NULL\<close> is the
  null pointer and \<open>Wild\<close> the value of a pointer field that was never assigned (the
  \<open>data\<close> field of the structure that \<open>lv_pngle_data_init\<close> obtains from \<open>malloc\<close>).
\<close>

datatype ptr = NULL | Wild | Buf int

text \<open>Executions that C leaves undefined are results of their own: the use of a null
  or of a never-assigned pointer, a store outside the pixel buffer, \<open>free\<close> of a pointer
  that \<open>calloc\<close> did not return, and an index outside a string.\<close>

datatype fault = Null_pointer | Wild_pointer | Out_of_bounds | Invalid_free | Bad_index

record lv_pngle_data_t =
  hdr_ready :: bool
  data_ready :: bool
  data :: ptr

section \<open>The pixel-ready callback\<close>

text \<open>\<open>*ud->data++ = v\<close> on the user data \<open>ud\<close> and the contents \<open>mem\<close> of the pixel
  buffer.\<close>

definition store_inc :: "u8 \<Rightarrow> lv_pngle_data_t \<times> u8 list \<Rightarrow> fault + lv_pngle_data_t \<times> u8 list" where
  "store_inc v s =
     (case data (fst s) of
        NULL \<Rightarrow> Inl Null_pointer
      | Wild \<Rightarrow> Inl Wild_pointer
      | Buf k \<Rightarrow>
          if 0 \<le> k \<and> k < int (length (snd s))
          then Inr ((fst s)\<lparr>data := Buf (k + 1)\<rparr>, (snd s)[nat k := v])
          else Inl Out_of_bounds)"

fun stores :: "u8 list \<Rightarrow> lv_pngle_data_t \<times> u8 list \<Rightarrow> fault + lv_pngle_data_t \<times> u8 list" where
  "stores [] s = Inr s"
| "stores (v # vs) s = (case store_inc v s of Inl e \<Rightarrow> Inl e | Inr s' \<Rightarrow> stores vs s')"

text \<open>The values that \<open>pngle_draw_cb\<close> stores, in the order of its stores. The operands
  \<open>rgba[i]\<close> are promoted to \<open>int\<close>; \<open>col\<close> is a \<open>uint16_t\<close> (depth 16) or a
  \<open>uint8_t\<close> (depths 8 and 1), and every store converts to \<open>uint8_t\<close>.\<close>

definition col16 :: "u8 \<Rightarrow> u8 \<Rightarrow> u8 \<Rightarrow> u16" where
  "col16 r g b =
     ucast (push_bit 8 ((ucast r :: c_int) AND 0xf8) OR push_bit 3 ((ucast g :: c_int) AND 0xfc)
            OR drop_bit 3 ((ucast b :: c_int) AND 0xf8))"

definition col8 :: "u8 \<Rightarrow> u8 \<Rightarrow> u8 \<Rightarrow> u8" where
  "col8 r g b =
     ucast (((ucast r :: c_int) AND 0xe0) OR drop_bit 3 ((ucast g :: c_int) AND 0xe0)
            OR drop_bit 6 ((ucast b :: c_int) AND 0xc0))"

definition col1 :: "u8 \<Rightarrow> u8 \<Rightarrow> u8 \<Rightarrow> u8" where
  "col1 r g b = ucast (((ucast r :: c_int) OR ucast g OR ucast b) AND 0x80)"

fun packed :: "color_depth \<Rightarrow> u8 \<times> u8 \<times> u8 \<times> u8 \<Rightarrow> u8 list" where
  "packed Depth32 (r, g, b, a) = [b, g, r, a]"
| "packed Depth16 (r, g, b, a) =
     [ucast ((ucast (col16 r g b) :: c_int) AND 0xff), ucast (drop_bit 8 (ucast (col16 r g b) :: c_int)), a]"
| "packed Depth8 (r, g, b, a) = [col8 r g b, a]"
| "packed Depth1 (r, g, b, a) = [ucast (drop_bit 7 (ucast (col1 r g b) :: c_int)), a]"

definition pngle_draw_cb ::
  "color_depth \<Rightarrow> lv_pngle_data_t \<times> u8 list \<Rightarrow> u8 \<times> u8 \<times> u8 \<times> u8 \<Rightarrow> fault + lv_pngle_data_t \<times> u8 list" where
  "pngle_draw_cb d s rgba = stores (packed d rgba) s"

text \<open>The packing table as the specification words it: the 16-bit value and the 8-bit
  values are computed at their own width, the 16-bit value is laid out low byte first.\<close>

definition spec_rgb565 :: "u8 \<Rightarrow> u8 \<Rightarrow> u8 \<Rightarrow> u16" where
  "spec_rgb565 r g b =
     push_bit 8 (ucast r AND 0xF8) OR push_bit 3 (ucast g AND 0xFC) OR drop_bit 3 (ucast b AND 0xF8)"

fun spec_packing :: "color_depth \<Rightarrow> u8 \<Rightarrow> u8 \<Rightarrow> u8 \<Rightarrow> u8 \<Rightarrow> u8 list" where
  "spec_packing Depth32 r g b a = [b, g, r, a]"
| "spec_packing Depth16 r g b a =
     [ucast (spec_rgb565 r g b), ucast (drop_bit 8 (spec_rgb565 r g b)), a]"
| "spec_packing Depth8 r g b a = [(r AND 0xE0) OR drop_bit 3 (g AND 0xE0) OR drop_bit 6 (b AND 0xC0), a]"
| "spec_packing Depth1 r g b a = [drop_bit 7 ((r OR g OR b) AND 0x80), a]"

text \<open>Bytes per pixel, from the table of the specification.\<close>

fun bytes_per_pixel :: "color_depth \<Rightarrow> nat" where
  "bytes_per_pixel Depth32 = 4"
| "bytes_per_pixel Depth16 = 3"
| "bytes_per_pixel Depth8 = 2"
| "bytes_per_pixel Depth1 = 2"

section \<open>The parser, the build and the environment\<close>

text \<open>
  Pngle (\<open>external/src/pngle.h\<close>) is a library this file links against, so it is a
  parameter \<open>L\<close> of the model. A call of \<open>pngle_feed\<close> returns its \<open>int\<close> result and
  the parser's next state, and names the callbacks the parser invoked during the call,
  in order. The callbacks of this file ignore the coordinates they are passed, so an
  event carries only the RGBA quadruplet of a pixel. \<open>pngle_get_width\<close> and
  \<open>pngle_get_height\<close>, which \<open>pngle_done_cb\<close> calls, are read from the parser's state
  after the call of \<open>pngle_feed\<close>.
\<close>

datatype event = Init_event | Draw_event "u8 \<times> u8 \<times> u8 \<times> u8" | Done_event

record 'p pngle_lib =
  pngle_new :: "'p option"
  pngle_feed :: "'p \<Rightarrow> u8 list \<Rightarrow> int \<times> 'p \<times> event list"
  pngle_get_width :: "'p \<Rightarrow> u32"
  pngle_get_height :: "'p \<Rightarrow> u32"

text \<open>
  What the build and the platform fix: the colour depth, whether plain \<open>char\<close> is signed
  (implementation-defined in C; the read buffers are arrays of \<open>char\<close>), what the
  uninitialised read buffers hold when a function is entered, the files \<open>lv_fs_open\<close>
  can open, and whether \<open>calloc\<close> returns a block.
\<close>

record env =
  depth :: color_depth
  char_signed :: bool
  stack_junk :: "u8 list"
  fs :: "string \<Rightarrow> u8 list option"
  calloc_ok :: bool

text \<open>An uninitialised \<open>char buf[n]\<close>.\<close>

definition stack_buf :: "env \<Rightarrow> nat \<Rightarrow> u8 list" where
  "stack_buf E n = take n (stack_junk E @ replicate n 0)"

text \<open>
  One decode: the parser, the two \<open>lv_pngle_data_t\<close> structures (the one that
  \<open>lv_pngle_data_init\<close> obtains from \<open>malloc\<close> and registers, and the caller's local
  \<open>ud\<close>), which of them the parser's user-data pointer refers to, which callbacks are
  registered, the locals \<open>png_width\<close> and \<open>png_height\<close> of \<open>pngle_decoder_open\<close>, and
  the pixel buffer: its contents, the sizes passed to \<open>calloc\<close> and the pointers passed to
  \<open>free\<close>.
\<close>

datatype ud_ref = Ud_malloc | Ud_local

record 'p session =
  pngle :: 'p
  user_data :: ud_ref
  ud_malloc :: lv_pngle_data_t
  ud :: lv_pngle_data_t
  draw_callback :: bool
  init_callback :: bool
  done_callback :: bool
  png_width :: u32
  png_height :: u32
  pixels :: "u8 list"
  callocs :: "nat list"
  frees :: "ptr list"

definition pngle_get_user_data :: "'p session \<Rightarrow> lv_pngle_data_t" where
  "pngle_get_user_data s = (case user_data s of Ud_malloc \<Rightarrow> ud_malloc s | Ud_local \<Rightarrow> ud s)"

definition put_user_data :: "lv_pngle_data_t \<Rightarrow> 'p session \<Rightarrow> 'p session" where
  "put_user_data x s = (case user_data s of Ud_malloc \<Rightarrow> s\<lparr>ud_malloc := x\<rparr> | Ud_local \<Rightarrow> s\<lparr>ud := x\<rparr>)"

section \<open>Initialisation, buffer allocation and the other callbacks\<close>

text \<open>\<open>lv_pngle_data_init\<close> overwrites its parameter \<open>ud\<close> with a fresh block and
  registers that block: the caller's structure is left alone, and the \<open>data\<close> field of
  the registered one is never assigned.\<close>

definition lv_pngle_data_init :: "'p session \<Rightarrow> 'p session" where
  "lv_pngle_data_init s =
     s\<lparr>ud_malloc := \<lparr>hdr_ready = False, data_ready = False, data = Wild\<rparr>, user_data := Ud_malloc\<rparr>"

text \<open>The argument of \<open>calloc\<close>, a \<open>uint32_t\<close> product.\<close>

fun buffer_size :: "color_depth \<Rightarrow> u32 \<Rightarrow> u32" where
  "buffer_size Depth32 n_px = n_px * 4"
| "buffer_size Depth16 n_px = n_px * 3"
| "buffer_size Depth8 n_px = n_px * 2"
| "buffer_size Depth1 n_px = n_px * 2"

text \<open>\<open>lv_pngle_buffer_init(&ud.data, n_px)\<close>: the result of \<open>calloc\<close> is stored
  unchecked.\<close>

definition lv_pngle_buffer_init :: "env \<Rightarrow> u32 \<Rightarrow> 'p session \<Rightarrow> 'p session" where
  "lv_pngle_buffer_init E n_px s =
     (if calloc_ok E
      then s\<lparr>ud := (ud s)\<lparr>data := Buf 0\<rparr>,
             pixels := replicate (unat (buffer_size (depth E) n_px)) 0,
             callocs := callocs s @ [unat (buffer_size (depth E) n_px)]\<rparr>
      else s\<lparr>ud := (ud s)\<lparr>data := NULL\<rparr>\<rparr>)"

definition pngle_init_cb :: "lv_pngle_data_t \<Rightarrow> lv_pngle_data_t" where
  "pngle_init_cb x = x\<lparr>hdr_ready := True\<rparr>"

text \<open>The rewind of \<open>pngle_done_cb\<close>, a \<open>uint32_t\<close> product of the constant and the
  parser's width and height.\<close>

fun rewind :: "color_depth \<Rightarrow> u32 \<Rightarrow> u32 \<Rightarrow> u32" where
  "rewind Depth32 w h = 4 * w * h"
| "rewind Depth16 w h = 3 * w * h"
| "rewind Depth8 w h = 2 * w * h"
| "rewind Depth1 w h = 2 * w * h"

definition pngle_done_cb :: "color_depth \<Rightarrow> u32 \<Rightarrow> u32 \<Rightarrow> lv_pngle_data_t \<Rightarrow> fault + lv_pngle_data_t" where
  "pngle_done_cb d w h x =
     (case data x of
        NULL \<Rightarrow> Inl Null_pointer
      | Wild \<Rightarrow> Inl Wild_pointer
      | Buf k \<Rightarrow> Inr (x\<lparr>data_ready := True, data := Buf (k - uint (rewind d w h))\<rparr>))"

text \<open>The callbacks that a call of \<open>pngle_feed\<close> invokes act on the structure the
  user-data pointer refers to and on the pixel buffer; a callback that was not
  registered is not called.\<close>

fun callback ::
  "color_depth \<Rightarrow> u32 \<Rightarrow> u32 \<Rightarrow> bool \<times> bool \<times> bool \<Rightarrow> event \<Rightarrow> lv_pngle_data_t \<times> u8 list
     \<Rightarrow> fault + lv_pngle_data_t \<times> u8 list" where
  "callback d w h (dr, ini, don) Init_event (x, mem) =
     (if ini then Inr (pngle_init_cb x, mem) else Inr (x, mem))"
| "callback d w h (dr, ini, don) (Draw_event rgba) (x, mem) =
     (if dr then pngle_draw_cb d (x, mem) rgba else Inr (x, mem))"
| "callback d w h (dr, ini, don) Done_event (x, mem) =
     (if don then (case pngle_done_cb d w h x of Inl e \<Rightarrow> Inl e | Inr x' \<Rightarrow> Inr (x', mem))
      else Inr (x, mem))"

fun callbacks ::
  "color_depth \<Rightarrow> u32 \<Rightarrow> u32 \<Rightarrow> bool \<times> bool \<times> bool \<Rightarrow> event list \<Rightarrow> lv_pngle_data_t \<times> u8 list
     \<Rightarrow> fault + lv_pngle_data_t \<times> u8 list" where
  "callbacks d w h cbs [] st = Inr st"
| "callbacks d w h cbs (e # es) st =
     (case callback d w h cbs e st of Inl err \<Rightarrow> Inl err | Inr st' \<Rightarrow> callbacks d w h cbs es st')"

text \<open>\<open>pngle_feed(pngle, bytes, len)\<close> as this file sees it: the library's result, and
  the effect of the callbacks on the session.\<close>

definition feed :: "env \<Rightarrow> 'p pngle_lib \<Rightarrow> 'p session \<Rightarrow> u8 list \<Rightarrow> fault + int \<times> 'p session" where
  "feed E L s bytes =
     (case pngle_feed L (pngle s) bytes of
        (r, p', evs) \<Rightarrow>
          (case callbacks (depth E) (pngle_get_width L p') (pngle_get_height L p')
                  (draw_callback s, init_callback s, done_callback s) evs
                  (pngle_get_user_data s, pixels s) of
             Inl err \<Rightarrow> Inl err
           | Inr (x, mem) \<Rightarrow> Inr (r, put_user_data x (s\<lparr>pngle := p', pixels := mem\<rparr>))))"

section \<open>The chunk reader\<close>

text \<open>
  A file open for reading is the list of the bytes from its read position on.
  \<open>lv_fs_read(f, &buf, btr, &rb)\<close> copies what is left of the file, at most \<open>btr\<close>
  bytes, to the start of \<open>buf\<close> and leaves the rest of \<open>buf\<close> as it was. The source
  reads neither the result of \<open>lv_fs_read\<close> nor \<open>rb\<close>, so the model returns only the
  file and the buffer.
\<close>

definition lv_fs_read :: "u8 list \<Rightarrow> u8 list \<Rightarrow> nat \<Rightarrow> u8 list \<times> u8 list" where
  "lv_fs_read f buf btr = (drop btr f, take btr f @ drop (length (take btr f)) buf)"

text \<open>An element of a \<open>char\<close> array promoted to \<open>int\<close>.\<close>

definition char_to_int :: "bool \<Rightarrow> u8 \<Rightarrow> c_int" where
  "char_to_int sg c = (if sg then scast c else ucast c)"

text \<open>\<open>((buf[0] << 24) | (buf[1] << 16) | (buf[2] << 8) | buf[3]) + 4\<close>, in \<open>int\<close>
  with two's-complement wrap-around.\<close>

definition chunk_length :: "bool \<Rightarrow> u8 list \<Rightarrow> c_int" where
  "chunk_length sg buf =
     (push_bit 24 (char_to_int sg (buf ! 0)) OR push_bit 16 (char_to_int sg (buf ! 1))
      OR push_bit 8 (char_to_int sg (buf ! 2)) OR char_to_int sg (buf ! 3)) + 4"

text \<open>The \<open>while (chunk_length > 0)\<close> loop of \<open>read_next_chunk\<close>.\<close>

function chunk_loop ::
  "env \<Rightarrow> 'p pngle_lib \<Rightarrow> 'p session \<Rightarrow> u8 list \<Rightarrow> u8 list \<Rightarrow> int
     \<Rightarrow> fault + lv_res_t \<times> 'p session \<times> u8 list" where
  "chunk_loop E L s f buf cl =
     (if cl > 0 then
        (let btr = (if cl < 1024 then cl else 1024) in
         case lv_fs_read f buf (nat btr) of
           (f', buf') \<Rightarrow>
             (case feed E L s (take (nat btr) buf') of
                Inl err \<Rightarrow> Inl err
              | Inr (r, s') \<Rightarrow>
                  if r < 0 then Inr (LV_RES_INV, s', f')
                  else chunk_loop E L s' f' buf' (cl - btr)))
      else Inr (LV_RES_OK, s, f))"
  by pat_completeness auto
termination
  by (relation "measure (\<lambda>(E, L, s, f, buf, cl). nat cl)") (auto split: if_splits)

declare chunk_loop.simps [simp del]

definition read_next_chunk ::
  "env \<Rightarrow> 'p pngle_lib \<Rightarrow> 'p session \<Rightarrow> u8 list \<Rightarrow> fault + lv_res_t \<times> 'p session \<times> u8 list" where
  "read_next_chunk E L s f =
     (case lv_fs_read f (stack_buf E 1024) 8 of
        (f', buf) \<Rightarrow>
          if sint (chunk_length (char_signed E) buf) < 0 then Inr (LV_RES_INV, s, f')
          else
            (case feed E L s (take 8 buf) of
               Inl err \<Rightarrow> Inl err
             | Inr (r, s') \<Rightarrow>
                 if r < 0 then Inr (LV_RES_INV, s', f')
                 else chunk_loop E L s' f' buf (sint (chunk_length (char_signed E) buf))))"

section \<open>The header phase and the data phase\<close>

text \<open>
  The two loops over \<open>read_next_chunk\<close> have no bound of their own, so they take fuel,
  one unit for each pass through the loop: \<open>None\<close> is a run that is still in the loop
  when the fuel is spent.
\<close>

fun header_loop ::
  "nat \<Rightarrow> env \<Rightarrow> 'p pngle_lib \<Rightarrow> 'p session \<Rightarrow> u8 list
     \<Rightarrow> (fault + lv_res_t \<times> 'p session \<times> u8 list) option" where
  "header_loop 0 E L s f = None"
| "header_loop (Suc n) E L s f =
     (if hdr_ready (pngle_get_user_data s) then Some (Inr (LV_RES_OK, s, f))
      else
        (case read_next_chunk E L s f of
           Inl err \<Rightarrow> Some (Inl err)
         | Inr (r, s', f') \<Rightarrow>
             if r \<noteq> LV_RES_OK then Some (Inr (LV_RES_INV, s', f'))
             else header_loop n E L s' f'))"

definition get_pngle_header ::
  "nat \<Rightarrow> env \<Rightarrow> 'p pngle_lib \<Rightarrow> 'p session \<Rightarrow> u8 list
     \<Rightarrow> (fault + lv_res_t \<times> 'p session \<times> u8 list) option" where
  "get_pngle_header fuel E L s f =
     (case lv_fs_read f (stack_buf E 8) 8 of
        (f', buf) \<Rightarrow>
          (case feed E L s (take 8 buf) of
             Inl err \<Rightarrow> Some (Inl err)
           | Inr (r, s') \<Rightarrow>
               if r < 0 then Some (Inr (LV_RES_INV, s', f'))
               else header_loop fuel E L s' f'))"

text \<open>\<open>get_pngle_data\<close> is a \<open>do ... while\<close>: the chunk is read before the flag is
  tested.\<close>

fun get_pngle_data ::
  "nat \<Rightarrow> env \<Rightarrow> 'p pngle_lib \<Rightarrow> 'p session \<Rightarrow> u8 list
     \<Rightarrow> (fault + lv_res_t \<times> 'p session \<times> u8 list) option" where
  "get_pngle_data 0 E L s f = None"
| "get_pngle_data (Suc n) E L s f =
     (case read_next_chunk E L s f of
        Inl err \<Rightarrow> Some (Inl err)
      | Inr (r, s', f') \<Rightarrow>
          if r \<noteq> LV_RES_OK then Some (Inr (LV_RES_INV, s', f'))
          else if data_ready (pngle_get_user_data s') then Some (Inr (LV_RES_OK, s', f'))
          else get_pngle_data n E L s' f')"

section \<open>The image descriptors of LVGL\<close>

text \<open>
  \<open>lvgl.h\<close> is not part of the source. An image source is a \<open>void *\<close> whose kind
  \<open>lv_img_src_get_type\<close> reads off; the model keeps the kind with the value, so
  \<open>dsc->src_type\<close> is \<open>lv_img_src_get_type\<close> of \<open>dsc->src\<close>. The fields \<open>cf\<close>, \<open>w\<close> and \<open>h\<close> of the
  header are numbers; the conversion to \<open>lv_coord_t\<close> and the constant
  \<open>LV_IMG_CF_RAW_ALPHA\<close> are parameters.
\<close>

datatype lv_img_src_t =
  LV_IMG_SRC_VARIABLE | LV_IMG_SRC_FILE | LV_IMG_SRC_SYMBOL | LV_IMG_SRC_UNKNOWN

record lv_img_header_t =
  always_zero :: nat
  header_cf :: nat
  header_w :: u32
  header_h :: u32

record lv_img_dsc_t =
  img_header :: lv_img_header_t
  data_size :: u32
  img_bytes :: "u8 list"

datatype img_src = Src_file string | Src_variable lv_img_dsc_t | Src_symbol string | Src_unknown

fun lv_img_src_get_type :: "img_src \<Rightarrow> lv_img_src_t" where
  "lv_img_src_get_type (Src_file fn) = LV_IMG_SRC_FILE"
| "lv_img_src_get_type (Src_variable img) = LV_IMG_SRC_VARIABLE"
| "lv_img_src_get_type (Src_symbol sy) = LV_IMG_SRC_SYMBOL"
| "lv_img_src_get_type Src_unknown = LV_IMG_SRC_UNKNOWN"

record lv_img_decoder_dsc_t =
  src :: img_src
  header :: lv_img_header_t
  img_data :: ptr

definition src_type :: "lv_img_decoder_dsc_t \<Rightarrow> lv_img_src_t" where
  "src_type dsc = lv_img_src_get_type (src dsc)"

record lvgl =
  lv_coord :: "u32 \<Rightarrow> u32"
  LV_IMG_CF_RAW_ALPHA :: nat

text \<open>\<open>!strcmp(&fn[strlen(fn) - 3], "png")\<close>: for a name of fewer than three
  characters the index wraps around and the read is outside the string.\<close>

definition png_suffix :: "string \<Rightarrow> fault + bool" where
  "png_suffix fn =
     (if length fn < 3 then Inl Bad_index else Inr (drop (length fn - 3) fn = ''png''))"

text \<open>\<open>memcmp(a, b, n)\<close>: the sign of the first difference, and no defined result when
  one of the arrays has fewer than \<open>n\<close> bytes.\<close>

fun first_diff :: "u8 list \<Rightarrow> u8 list \<Rightarrow> int" where
  "first_diff (x # xs) (y # ys) = (if x = y then first_diff xs ys else uint x - uint y)"
| "first_diff xs ys = 0"

definition memcmp :: "u8 list \<Rightarrow> u8 list \<Rightarrow> nat \<Rightarrow> fault + int" where
  "memcmp xs ys n =
     (if length xs < n \<or> length ys < n then Inl Out_of_bounds
      else Inr (first_diff (take n xs) (take n ys)))"

definition magic :: "u8 list" where
  "magic = [0x89, 0x50, 0x4e, 0x47, 0x0d, 0x0a, 0x1a, 0x0a]"

section \<open>The decoder callbacks\<close>

text \<open>The session as \<open>pngle_decoder_info\<close> and \<open>pngle_decoder_open\<close> set it up: a new
  parser, the local \<open>ud\<close>, then \<open>lv_pngle_data_init\<close> and the callbacks they register.\<close>

definition new_session :: "'p \<Rightarrow> lv_pngle_data_t \<Rightarrow> bool \<times> bool \<times> bool \<Rightarrow> 'p session" where
  "new_session p x cbs =
     lv_pngle_data_init
       \<lparr>pngle = p, user_data = Ud_local, ud_malloc = x, ud = x,
        draw_callback = fst cbs, init_callback = fst (snd cbs), done_callback = snd (snd cbs),
        png_width = 0, png_height = 0, pixels = [], callocs = [], frees = []\<rparr>"

text \<open>\<open>pngle_decoder_info\<close> returns its result, the header it filled in and the sizes
  of the pixel buffers it allocated. Its local \<open>ud\<close> is not initialised; nothing reads
  it, since \<open>lv_pngle_data_init\<close> registers a block of its own.\<close>

definition pngle_decoder_info ::
  "nat \<Rightarrow> env \<Rightarrow> lvgl \<Rightarrow> 'p pngle_lib \<Rightarrow> img_src \<Rightarrow> lv_img_header_t
     \<Rightarrow> (fault + lv_res_t \<times> lv_img_header_t \<times> nat list) option" where
  "pngle_decoder_info fuel E G L sr hdr =
     (case sr of
        Src_file fn \<Rightarrow>
          (case png_suffix fn of
             Inl err \<Rightarrow> Some (Inl err)
           | Inr False \<Rightarrow> Some (Inr (LV_RES_INV, hdr, []))
           | Inr True \<Rightarrow>
               (case pngle_new L of
                  None \<Rightarrow> Some (Inr (LV_RES_INV, hdr, []))
                | Some p \<Rightarrow>
                    (case fs E fn of
                       None \<Rightarrow> Some (Inr (LV_RES_INV, hdr, []))
                     | Some f \<Rightarrow>
                         (case get_pngle_header fuel E L
                                 (new_session p \<lparr>hdr_ready = False, data_ready = False, data = Wild\<rparr>
                                    (False, True, False)) f of
                            None \<Rightarrow> None
                          | Some (Inl err) \<Rightarrow> Some (Inl err)
                          | Some (Inr (r, s', f')) \<Rightarrow>
                              if r = LV_RES_OK
                              then Some (Inr (LV_RES_OK,
                                     hdr\<lparr>always_zero := 0, header_cf := LV_IMG_CF_RAW_ALPHA G,
                                        header_w := lv_coord G (pngle_get_width L (pngle s')),
                                        header_h := lv_coord G (pngle_get_height L (pngle s'))\<rparr>,
                                     callocs s'))
                              else Some (Inr (LV_RES_INV, hdr, callocs s'))))))
      | Src_variable img_dsc \<Rightarrow>
          (case memcmp magic (img_bytes img_dsc) (length magic) of
             Inl err \<Rightarrow> Some (Inl err)
           | Inr c \<Rightarrow>
               if c \<noteq> 0 then Some (Inr (LV_RES_INV, hdr, []))
               else Some (Inr (LV_RES_OK,
                      hdr\<lparr>always_zero := 0, header_cf := header_cf (img_header img_dsc),
                         header_w := header_w (img_header img_dsc), header_h := header_h (img_header img_dsc)\<rparr>, [])))
      | Src_symbol sy \<Rightarrow> Some (Inr (LV_RES_INV, hdr, []))
      | Src_unknown \<Rightarrow> Some (Inr (LV_RES_INV, hdr, [])))"

text \<open>The feed loop of \<open>pngle_decoder_open\<close> for a source in memory. \<open>sz\<close> is never
  changed and \<open>pos\<close> is never compared with it: on every pass \<open>pngle_feed\<close> is handed
  \<open>btr = min(sz, 1024)\<close> bytes from \<open>data + pos\<close>, and when these do not all lie in the
  array the read is outside it. The result is the flag \<open>failed\<close>.\<close>

fun memory_loop ::
  "nat \<Rightarrow> env \<Rightarrow> 'p pngle_lib \<Rightarrow> 'p session \<Rightarrow> u8 list \<Rightarrow> u32 \<Rightarrow> u32
     \<Rightarrow> (fault + bool \<times> 'p session) option" where
  "memory_loop 0 E L s bytes pos sz = None"
| "memory_loop (Suc n) E L s bytes pos sz =
     (if data_ready (ud s) then Some (Inr (False, s))
      else
        (let btr = (if sz < 1024 then sz else 1024) in
         if length bytes < unat pos + unat btr then Some (Inl Out_of_bounds)
         else
           (case feed E L s (take (unat btr) (drop (unat pos) bytes)) of
              Inl err \<Rightarrow> Some (Inl err)
            | Inr (r, s') \<Rightarrow>
                if r < 0 then Some (Inr (True, s'))
                else memory_loop n E L s' bytes (pos + btr) sz)))"

text \<open>\<open>free(p)\<close> releases the pixel buffer when \<open>p\<close> is the pointer \<open>calloc\<close> returned
  and the block has not been released; any other argument is undefined.\<close>

definition free :: "ptr \<Rightarrow> 'p session \<Rightarrow> fault + 'p session" where
  "free p s =
     (if p = Buf 0 \<and> callocs s \<noteq> [] \<and> frees s = [] then Inr (s\<lparr>frees := frees s @ [p]\<rparr>)
      else Inl Invalid_free)"

text \<open>What a call of \<open>pngle_decoder_open\<close> leaves behind: its result, the descriptor,
  its locals \<open>png_width\<close> and \<open>png_height\<close> (0 where it returns before they are
  declared), and the pixel buffer with the calls of \<open>calloc\<close> and \<open>free\<close>.\<close>

record open_result =
  result :: lv_res_t
  dsc_out :: lv_img_decoder_dsc_t
  width_out :: u32
  height_out :: u32
  pixels_out :: "u8 list"
  callocs_out :: "nat list"
  frees_out :: "ptr list"

text \<open>The end of \<open>pngle_decoder_open\<close>, from \<open>if (failed)\<close> on.\<close>

definition finish :: "bool \<Rightarrow> 'p session \<Rightarrow> lv_img_decoder_dsc_t \<Rightarrow> fault + open_result" where
  "finish failed s dsc =
     (if failed then
        (if data (ud s) \<noteq> NULL then
           (case free (data (ud s)) s of
              Inl err \<Rightarrow> Inl err
            | Inr s' \<Rightarrow>
                Inr \<lparr>result = LV_RES_INV, dsc_out = dsc, width_out = png_width s',
                     height_out = png_height s', pixels_out = pixels s',
                     callocs_out = callocs s', frees_out = frees s'\<rparr>)
         else Inr \<lparr>result = LV_RES_INV, dsc_out = dsc, width_out = png_width s,
                   height_out = png_height s, pixels_out = pixels s,
                   callocs_out = callocs s, frees_out = frees s\<rparr>)
      else Inr \<lparr>result = LV_RES_OK, dsc_out = dsc\<lparr>img_data := data (ud s)\<rparr>,
                width_out = png_width s, height_out = png_height s, pixels_out = pixels s,
                callocs_out = callocs s, frees_out = frees s\<rparr>)"

text \<open>The session of \<open>pngle_decoder_open\<close> before the source is read: the local
  \<open>ud = {false, false, NULL}\<close> and the three callbacks.\<close>

definition session0 :: "'p \<Rightarrow> 'p session" where
  "session0 p = new_session p \<lparr>hdr_ready = False, data_ready = False, data = NULL\<rparr> (True, True, True)"

definition pngle_decoder_open ::
  "nat \<Rightarrow> env \<Rightarrow> 'p pngle_lib \<Rightarrow> lv_img_decoder_dsc_t \<Rightarrow> (fault + open_result) option" where
  "pngle_decoder_open fuel E L dsc =
     (if src_type dsc \<noteq> LV_IMG_SRC_FILE \<and> src_type dsc \<noteq> LV_IMG_SRC_VARIABLE
      then Some (Inr \<lparr>result = LV_RES_INV, dsc_out = dsc, width_out = 0, height_out = 0, pixels_out = [],
                    callocs_out = [], frees_out = []\<rparr>)
      else
        (case pngle_new L of
           None \<Rightarrow>
             Some (Inr \<lparr>result = LV_RES_INV, dsc_out = dsc, width_out = 0, height_out = 0, pixels_out = [],
                    callocs_out = [], frees_out = []\<rparr>)
         | Some p \<Rightarrow>
             (let s0 = session0 p in
              case src dsc of
                Src_file fn \<Rightarrow>
                  (case png_suffix fn of
                     Inl err \<Rightarrow> Some (Inl err)
                   | Inr False \<Rightarrow> Some (finish False s0 dsc)
                   | Inr True \<Rightarrow>
                       (case fs E fn of
                          None \<Rightarrow> Some (finish True s0 dsc)
                        | Some f \<Rightarrow>
                            (case get_pngle_header fuel E L s0 f of
                               None \<Rightarrow> None
                             | Some (Inl err) \<Rightarrow> Some (Inl err)
                             | Some (Inr (r, s1, f1)) \<Rightarrow>
                                 if r = LV_RES_OK then
                                   (case get_pngle_data fuel E L
                                           ((lv_pngle_buffer_init E
                                               (pngle_get_width L (pngle s1) * pngle_get_height L (pngle s1))
                                               (s1\<lparr>png_width := pngle_get_width L (pngle s1),
                                                   png_height := pngle_get_height L (pngle s1)\<rparr>))
                                            \<lparr>user_data := Ud_local\<rparr>) f1 of
                                      None \<Rightarrow> None
                                    | Some (Inl err) \<Rightarrow> Some (Inl err)
                                    | Some (Inr (r2, s2, f2)) \<Rightarrow> Some (finish (r2 \<noteq> LV_RES_OK) s2 dsc))
                                 else Some (finish True s1 dsc))))
              | Src_variable img_src \<Rightarrow>
                  (case memory_loop fuel E L
                          ((lv_pngle_buffer_init E (header_w (header dsc) * header_h (header dsc))
                              (s0\<lparr>png_width := header_w (header dsc), png_height := header_h (header dsc)\<rparr>))
                           \<lparr>user_data := Ud_local\<rparr>)
                          (img_bytes img_src) 0 (data_size img_src) of
                     None \<Rightarrow> None
                   | Some (Inl err) \<Rightarrow> Some (Inl err)
                   | Some (Inr (failed, s2)) \<Rightarrow> Some (finish failed s2 dsc))
              | Src_symbol sy \<Rightarrow> Some (finish False s0 dsc)
              | Src_unknown \<Rightarrow> Some (finish False s0 dsc))))"

text \<open>The sources that \<open>pngle_decoder_open\<close> reads: a source in memory, and a file whose
  name passes the test \<open>!strcmp(&fn[strlen(fn) - 3], "png")\<close>.\<close>

fun decodes :: "img_src \<Rightarrow> bool" where
  "decodes (Src_file fn) = (png_suffix fn = Inr True)"
| "decodes (Src_variable img) = True"
| "decodes (Src_symbol sy) = False"
| "decodes Src_unknown = False"

text \<open>\<open>pngle_decoder_close\<close> on the descriptor and the list of the pointers passed to
  \<open>lv_mem_free\<close>.\<close>

definition pngle_decoder_close :: "lv_img_decoder_dsc_t \<times> ptr list \<Rightarrow> lv_img_decoder_dsc_t \<times> ptr list" where
  "pngle_decoder_close st =
     (if img_data (fst st) \<noteq> NULL
      then ((fst st)\<lparr>img_data := NULL\<rparr>, snd st @ [img_data (fst st)])
      else st)"

section \<open>A scripted parser\<close>

text \<open>
  An instance of the library's interface, used where the model is evaluated on concrete
  input: its state is a script, one entry for each call of \<open>pngle_feed\<close>, that gives
  the call's result and the callbacks invoked during it. Past the end of the script
  every call consumes what it is given and invokes no callback.
\<close>

definition script_lib :: "u32 \<Rightarrow> u32 \<Rightarrow> (int \<times> event list) list \<Rightarrow> (int \<times> event list) list pngle_lib" where
  "script_lib wd ht script =
     \<lparr>pngle_new = Some script,
      pngle_feed = (\<lambda>p bytes. case p of [] \<Rightarrow> (int (length bytes), [], []) | (r, evs) # rest \<Rightarrow> (r, rest, evs)),
      pngle_get_width = (\<lambda>p. wd),
      pngle_get_height = (\<lambda>p. ht)\<rparr>"

text \<open>Concrete inputs: a build at depth 32 with unsigned \<open>char\<close>, zeroed read buffers
  and a working \<open>calloc\<close>, and descriptors of a source in memory and of a file.\<close>

definition example_env :: "(string \<Rightarrow> u8 list option) \<Rightarrow> env" where
  "example_env files =
     \<lparr>depth = Depth32, char_signed = False, stack_junk = [], fs = files, calloc_ok = True\<rparr>"

definition example_header :: "u32 \<Rightarrow> u32 \<Rightarrow> lv_img_header_t" where
  "example_header wd ht = \<lparr>always_zero = 0, header_cf = 5, header_w = wd, header_h = ht\<rparr>"

definition memory_dsc :: "u32 \<Rightarrow> u32 \<Rightarrow> u8 list \<Rightarrow> lv_img_decoder_dsc_t" where
  "memory_dsc wd ht bytes =
     \<lparr>src = Src_variable \<lparr>img_header = example_header wd ht, data_size = of_nat (length bytes),
                            img_bytes = bytes\<rparr>,
      header = example_header wd ht, img_data = NULL\<rparr>"

definition file_dsc :: "string \<Rightarrow> lv_img_decoder_dsc_t" where
  "file_dsc fn = \<lparr>src = Src_file fn, header = example_header 0 0, img_data = NULL\<rparr>"

text \<open>What a call of \<open>pngle_feed\<close> leaves alone.\<close>

definition same_frame :: "'p session \<Rightarrow> 'p session \<Rightarrow> bool" where
  "same_frame s s' \<longleftrightarrow>
     callocs s' = callocs s \<and> frees s' = frees s \<and> user_data s' = user_data s
     \<and> draw_callback s' = draw_callback s \<and> init_callback s' = init_callback s
     \<and> done_callback s' = done_callback s \<and> length (pixels s') = length (pixels s)
     \<and> png_width s' = png_width s \<and> png_height s' = png_height s"

text \<open>The big-endian unsigned reading of a four-byte length field, as the specification
  words it.\<close>

definition big_endian_u32 :: "u8 list \<Rightarrow> nat" where
  "big_endian_u32 bs = unat (bs ! 0) * 2 ^ 24 + unat (bs ! 1) * 2 ^ 16 + unat (bs ! 2) * 2 ^ 8 + unat (bs ! 3)"

text \<open>A file that ends before the chunk it declares: the signature and the header of a
  chunk of 13 bytes, and nothing after it.\<close>

definition truncated_png :: "u8 list" where
  "truncated_png = magic @ [0, 0, 0, 13, 0x49, 0x48, 0x44, 0x52]"

text \<open>A whole file of one pixel: the signature and the chunks \<open>IHDR\<close> (1 by 1, eight-bit
  RGBA), \<open>IDAT\<close> and \<open>IEND\<close>.\<close>

definition tiny_png :: "u8 list" where
  "tiny_png = magic @ [0x00, 0x00, 0x00, 0x0d, 0x49, 0x48, 0x44, 0x52, 0x00, 0x00, 0x00, 0x01,
       0x00, 0x00, 0x00, 0x01, 0x08, 0x06, 0x00, 0x00, 0x00, 0x1f, 0x15, 0xc4, 0x89,
       0x00, 0x00, 0x00, 0x0d, 0x49, 0x44, 0x41, 0x54, 0x78, 0x9c, 0x63, 0x60, 0x64, 0x62, 0x66,
       0x01, 0x00, 0x00, 0x19, 0x00, 0x0b, 0xe7, 0x5a, 0x46, 0xa4,
       0x00, 0x00, 0x00, 0x00, 0x49, 0x45, 0x4e, 0x44, 0xae, 0x42, 0x60, 0x82]"

text \<open>A file whose header chunk declares an image of 65536 by 65536 pixels: the signature,
  the \<open>IHDR\<close> chunk and the \<open>IEND\<close> chunk.\<close>

definition huge_png :: "u8 list" where
  "huge_png = magic @ [0x00, 0x00, 0x00, 0x0d, 0x49, 0x48, 0x44, 0x52, 0x00, 0x01, 0x00, 0x00,
       0x00, 0x01, 0x00, 0x00, 0x08, 0x06, 0x00, 0x00, 0x00, 0x6c, 0x84, 0x30, 0xe3,
       0x00, 0x00, 0x00, 0x00, 0x49, 0x45, 0x4e, 0x44, 0xae, 0x42, 0x60, 0x82]"

text \<open>
  The feeding of a chunk as the specification words it: the chunk is cut into bursts of
  at most 1024 bytes, the bursts are fed in order, and the first feed that reports an
  error ends the reading with a failure. \<open>forget_file\<close> drops the file position from a
  result of the chunk reader.
\<close>

fun feed_all :: "env \<Rightarrow> 'p pngle_lib \<Rightarrow> 'p session \<Rightarrow> u8 list list \<Rightarrow> fault + lv_res_t \<times> 'p session" where
  "feed_all E L s [] = Inr (LV_RES_OK, s)"
| "feed_all E L s (b # bs) =
     (case feed E L s b of
        Inl err \<Rightarrow> Inl err
      | Inr (r, s') \<Rightarrow> if r < 0 then Inr (LV_RES_INV, s') else feed_all E L s' bs)"

function bursts :: "u8 list \<Rightarrow> u8 list list" where
  "bursts xs = (if xs = [] then [] else take 1024 xs # bursts (drop 1024 xs))"
  by pat_completeness auto
termination
  by (relation "measure length") auto

declare bursts.simps [simp del]

definition forget_file :: "fault + lv_res_t \<times> 'p session \<times> u8 list \<Rightarrow> fault + lv_res_t \<times> 'p session" where
  "forget_file x = (case x of Inl err \<Rightarrow> Inl err | Inr (r, s, f) \<Rightarrow> Inr (r, s))"

text \<open>
  The byte lists that one call of \<open>read_next_chunk\<close> hands to \<open>pngle_feed\<close> as long as no
  feed is rejected, as the file and the read buffer alone determine them: the first
  eight bytes of \<open>buf\<close> after the read of the chunk header, then on every pass of the loop
  the first \<open>btr\<close> bytes of \<open>buf\<close> after the read of that pass. Where the file has fewer
  bytes left than a read asks for, \<open>buf\<close> keeps what it held. \<open>feed_results\<close> lists the
  results of feeding such lists in order, up to the first negative one.
\<close>

function burst_reads :: "u8 list \<Rightarrow> u8 list \<Rightarrow> int \<Rightarrow> u8 list list" where
  "burst_reads f buf cl =
     (if cl > 0 then
        (let btr = (if cl < 1024 then cl else 1024) in
         case lv_fs_read f buf (nat btr) of
           (f', buf') \<Rightarrow> take (nat btr) buf' # burst_reads f' buf' (cl - btr))
      else [])"
  by pat_completeness auto
termination
  by (relation "measure (\<lambda>(f, buf, cl). nat cl)") (auto split: if_splits)

declare burst_reads.simps [simp del]

definition chunk_feeds :: "env \<Rightarrow> u8 list \<Rightarrow> u8 list list" where
  "chunk_feeds E f =
     (case lv_fs_read f (stack_buf E 1024) 8 of
        (f', buf) \<Rightarrow> take 8 buf # burst_reads f' buf (sint (chunk_length (char_signed E) buf)))"

fun feed_results :: "env \<Rightarrow> 'p pngle_lib \<Rightarrow> 'p session \<Rightarrow> u8 list list \<Rightarrow> int list" where
  "feed_results E L s [] = []"
| "feed_results E L s (b # bs) =
     (case feed E L s b of
        Inl err \<Rightarrow> []
      | Inr (r, s') \<Rightarrow> r # (if r < 0 then [] else feed_results E L s' bs))"

text \<open>A parser for which a feed of no bytes does nothing: it returns 0, keeps its state
  and invokes no callback. On other feeds it is the given library \<open>L\<close>.\<close>

definition noop_on_empty :: "'p pngle_lib \<Rightarrow> 'p \<Rightarrow> 'p pngle_lib" where
  "noop_on_empty L p =
     L\<lparr>pngle_new := Some p,
       pngle_feed := (\<lambda>q bytes. if bytes = [] then (0, q, []) else pngle_feed L q bytes)\<rparr>"

section \<open>Lemmas on the packer\<close>

lemma all_lt16:
  "(\<forall>n<16. P (n::nat)) \<longleftrightarrow>
     P 0 \<and> P 1 \<and> P 2 \<and> P 3 \<and> P 4 \<and> P 5 \<and> P 6 \<and> P 7 \<and> P 8 \<and> P 9 \<and> P 10 \<and> P 11 \<and> P 12
     \<and> P 13 \<and> P 14 \<and> P 15"
proof -
  have "n \<in> {0, 1, 2, 3, 4, 5, 6, 7, 8, 9, 10, 11, 12, 13, 14, 15}" if "n < 16" for n :: nat
    using that by simp arith
  then show ?thesis by (auto dest!: \<open>\<And>n. n < 16 \<Longrightarrow> _\<close>)
qed

lemma all_lt8:
  "(\<forall>n<8. P (n::nat)) \<longleftrightarrow> P 0 \<and> P 1 \<and> P 2 \<and> P 3 \<and> P 4 \<and> P 5 \<and> P 6 \<and> P 7"
proof -
  have "n \<in> {0, 1, 2, 3, 4, 5, 6, 7}" if "n < 8" for n :: nat
    using that by simp arith
  then show ?thesis by (auto dest!: \<open>\<And>n. n < 8 \<Longrightarrow> _\<close>)
qed

lemma word16_eqI: "(\<forall>n<16. bit x n = bit y n) \<Longrightarrow> x = y" for x y :: u16
  by (auto intro: bit_word_eqI)

lemma word8_eqI: "(\<forall>n<8. bit x n = bit y n) \<Longrightarrow> x = y" for x y :: u8
  by (auto intro: bit_word_eqI)

lemma col16_spec: "col16 r g b = spec_rgb565 r g b"
  by (rule word16_eqI) (simp add: all_lt16 col16_def spec_rgb565_def bit_simps)

lemma col16_low: "(ucast ((ucast (x :: u16) :: c_int) AND 0xff) :: u8) = ucast x"
  by (rule word8_eqI) (simp add: all_lt8 bit_simps)

lemma col16_high: "(ucast (drop_bit 8 (ucast (x :: u16) :: c_int)) :: u8) = ucast (drop_bit 8 x)"
  by (rule word8_eqI) (simp add: all_lt8 bit_simps)

lemma col8_spec: "col8 r g b = (r AND 0xE0) OR drop_bit 3 (g AND 0xE0) OR drop_bit 6 (b AND 0xC0)"
  by (rule word8_eqI) (simp add: all_lt8 col8_def bit_simps)

lemma col1_spec:
  "(ucast (drop_bit 7 (ucast (col1 r g b) :: c_int)) :: u8) = drop_bit 7 ((r OR g OR b) AND 0x80)"
  by (rule word8_eqI) (simp add: all_lt8 col1_def bit_simps)

lemma packed_spec: "packed d (r, g, b, a) = spec_packing d r g b a"
  by (cases d) (simp_all add: col16_spec col16_low col16_high col8_spec col1_spec)

lemma length_packed: "length (packed d rgba) = bytes_per_pixel d"
  by (cases d; cases rgba) simp_all

lemma stores_in_bounds:
  "data u = Buf (int k) \<Longrightarrow> k + length vs \<le> length mem \<Longrightarrow>
   stores vs (u, mem) =
     Inr (u\<lparr>data := Buf (int (k + length vs))\<rparr>, take k mem @ vs @ drop (k + length vs) mem)"
proof (induction vs arbitrary: k u mem)
  case Nil
  then show ?case by simp
next
  case (Cons v vs)
  have k: "k < length mem" using Cons.prems(2) by simp
  have upd: "mem[k := v] = take k mem @ v # drop (Suc k) mem"
    using k by (simp add: upd_conv_take_nth_drop)
  have step: "store_inc v (u, mem) = Inr (u\<lparr>data := Buf (int (Suc k))\<rparr>, mem[k := v])"
    using Cons.prems k by (simp add: store_inc_def add.commute)
  have "stores vs (u\<lparr>data := Buf (int (Suc k))\<rparr>, mem[k := v]) =
        Inr (u\<lparr>data := Buf (int (Suc k + length vs))\<rparr>,
             take (Suc k) (mem[k := v]) @ vs @ drop (Suc k + length vs) (mem[k := v]))"
    using Cons.IH [of "u\<lparr>data := Buf (int (Suc k))\<rparr>" "Suc k" "mem[k := v]"] Cons.prems(2)
    by simp
  moreover have "take (Suc k) (mem[k := v]) = take k mem @ [v]"
    using k by (simp add: upd take_Suc_conv_app_nth nth_append)
  moreover have "drop (Suc k + length vs) (mem[k := v]) = drop (Suc k + length vs) mem"
    by simp
  ultimately show ?case using step by simp
qed

section \<open>Lemmas on the callbacks and on \<open>pngle_feed\<close>\<close>

lemma first_diff_eq: "length xs = length ys \<Longrightarrow> first_diff xs ys = 0 \<longleftrightarrow> xs = ys"
  by (induction xs ys rule: first_diff.induct) (auto simp: word_uint_eq_iff)

lemma length_magic: "length magic = 8"
  by (simp add: magic_def)

lemma memcmp_magic:
  assumes "8 \<le> length bs"
  shows "memcmp magic bs (length magic) = Inr c \<longleftrightarrow> c = first_diff magic (take 8 bs)"
  using assms by (auto simp: memcmp_def length_magic)

lemma put_user_data_fields [simp]:
  "callocs (put_user_data x s) = callocs s" "frees (put_user_data x s) = frees s"
  "user_data (put_user_data x s) = user_data s" "pixels (put_user_data x s) = pixels s"
  "pngle (put_user_data x s) = pngle s"
  "draw_callback (put_user_data x s) = draw_callback s" "init_callback (put_user_data x s) = init_callback s"
  "done_callback (put_user_data x s) = done_callback s"
  "png_width (put_user_data x s) = png_width s" "png_height (put_user_data x s) = png_height s"
  by (simp_all add: put_user_data_def split: ud_ref.splits)

lemma feedE:
  assumes "feed E L s bytes = Inr (r, s')"
  obtains p' evs x mem where
    "pngle_feed L (pngle s) bytes = (r, p', evs)"
    "callbacks (depth E) (pngle_get_width L p') (pngle_get_height L p')
        (draw_callback s, init_callback s, done_callback s) evs
        (pngle_get_user_data s, pixels s) = Inr (x, mem)"
    "s' = put_user_data x (s\<lparr>pngle := p', pixels := mem\<rparr>)"
  using assms unfolding feed_def
  by (auto split: prod.splits sum.splits)

lemma unat_rewind: "unat (rewind d wd ht) = (bytes_per_pixel d * unat wd * unat ht) mod 2 ^ 32"
  by (cases d) (simp_all add: unat_word_ariths mod_simps)

lemma unat_buffer_size: "unat (buffer_size d n_px) = (bytes_per_pixel d * unat n_px) mod 2 ^ 32"
  by (cases d) (simp_all add: unat_word_ariths mod_simps mult.commute)

lemma unat_buffer_size_mult:
  "unat (buffer_size d (wd * ht)) = (bytes_per_pixel d * unat wd * unat ht) mod 2 ^ 32"
  by (simp add: unat_buffer_size unat_word_ariths mod_simps mult.assoc)

lemma store_inc_InrD:
  assumes "store_inc v (x, mem) = Inr (x', mem')" and "data x = Buf (int k)"
  shows "x' = x\<lparr>data := Buf (int (Suc k))\<rparr>" "k < length mem" "length mem' = length mem"
  using assms by (auto simp: store_inc_def add.commute split: if_splits)

lemma stores_InrD:
  assumes "stores vs (x, mem) = Inr (x', mem')" and "data x = Buf (int k)"
  shows "x' = x\<lparr>data := Buf (int (k + length vs))\<rparr> \<and> (vs \<noteq> [] \<longrightarrow> k + length vs \<le> length mem)
         \<and> length mem' = length mem"
  using assms
proof (induction vs arbitrary: x mem k)
  case Nil
  then show ?case by simp
next
  case (Cons v vs)
  from Cons.prems(1) obtain x1 mem1 where
    1: "store_inc v (x, mem) = Inr (x1, mem1)" and 2: "stores vs (x1, mem1) = Inr (x', mem')"
    by (auto split: sum.splits)
  note d = store_inc_InrD [OF 1 Cons.prems(2)]
  have "data x1 = Buf (int (Suc k))" using d(1) by simp
  from Cons.IH [OF 2 this] d show ?case by (cases vs) auto
qed


lemma bytes_per_pixel_pos: "0 < bytes_per_pixel d"
  by (cases d) simp_all

lemma draws_InrD:
  assumes "callbacks d wd ht (True, ini, don) (map Draw_event ps) (x, mem) = Inr (x', mem')"
    and "data x = Buf (int k)"
  shows "x' = x\<lparr>data := Buf (int (k + bytes_per_pixel d * length ps))\<rparr>
         \<and> (ps \<noteq> [] \<longrightarrow> k + bytes_per_pixel d * length ps \<le> length mem)
         \<and> length mem' = length mem"
  using assms
proof (induction ps arbitrary: x mem k)
  case Nil
  then show ?case by simp
next
  case (Cons rgba ps)
  from Cons.prems(1) obtain x1 mem1 where
    1: "stores (packed d rgba) (x, mem) = Inr (x1, mem1)"
    and 2: "callbacks d wd ht (True, ini, don) (map Draw_event ps) (x1, mem1) = Inr (x', mem')"
    by (auto simp: pngle_draw_cb_def split: sum.splits)
  have ne: "packed d rgba \<noteq> []"
    using length_packed [of d rgba] bytes_per_pixel_pos [of d] by auto
  from stores_InrD [OF 1 Cons.prems(2)] ne
  have x1: "x1 = x\<lparr>data := Buf (int (k + bytes_per_pixel d))\<rparr>"
    and b1: "k + bytes_per_pixel d \<le> length mem" and l1: "length mem1 = length mem"
    by (simp_all add: length_packed)
  have "data x1 = Buf (int (k + bytes_per_pixel d))" using x1 by simp
  from Cons.IH [OF 2 this] x1 b1 l1 show ?case
    by (cases ps) (auto simp: algebra_simps)
qed

lemma done_cb_Buf:
  "data x = Buf k \<Longrightarrow>
   pngle_done_cb d wd ht x =
     Inr (x\<lparr>data_ready := True, data := Buf (k - int ((bytes_per_pixel d * unat wd * unat ht) mod 2 ^ 32))\<rparr>)"
proof -
  have "uint (rewind d wd ht) = int ((bytes_per_pixel d * unat wd * unat ht) mod 2 ^ 32)"
    unfolding unat_rewind [symmetric] by simp
  then show "data x = Buf k \<Longrightarrow> ?thesis"
    by (simp add: pngle_done_cb_def)
qed

section \<open>What the loops leave alone\<close>

lemma same_frame_refl [simp]: "same_frame s s"
  by (simp add: same_frame_def)

lemma same_frame_trans: "same_frame s s' \<Longrightarrow> same_frame s' s'' \<Longrightarrow> same_frame s s''"
  by (simp add: same_frame_def)

lemma store_inc_length: "store_inc v st = Inr st' \<Longrightarrow> length (snd st') = length (snd st)"
  by (auto simp: store_inc_def split: ptr.splits if_splits)

lemma stores_length: "stores vs st = Inr st' \<Longrightarrow> length (snd st') = length (snd st)"
proof (induction vs arbitrary: st)
  case Nil
  then show ?case by simp
next
  case (Cons v vs)
  then show ?case by (auto split: sum.splits dest!: store_inc_length)
qed

lemma callback_length: "callback d wd ht cbs e st = Inr st' \<Longrightarrow> length (snd st') = length (snd st)"
  by (cases "(d, wd, ht, cbs, e, st)" rule: callback.cases)
     (auto simp: pngle_draw_cb_def split: if_splits sum.splits dest: stores_length)

lemma callbacks_length: "callbacks d wd ht cbs es st = Inr st' \<Longrightarrow> length (snd st') = length (snd st)"
proof (induction es arbitrary: st)
  case Nil
  then show ?case by simp
next
  case (Cons e es)
  then show ?case by (auto split: sum.splits dest!: callback_length)
qed

lemma feed_frame: "feed E L s bytes = Inr (r, s') \<Longrightarrow> same_frame s s'"
  by (erule feedE) (auto simp: same_frame_def dest: callbacks_length)

lemma chunk_loop_frame: "chunk_loop E L s f buf cl = Inr (r, s', f') \<Longrightarrow> same_frame s s'"
proof (induction E L s f buf cl rule: chunk_loop.induct)
  case (1 E L s f buf cl)
  show ?case
  proof (cases "cl > 0")
    case False
    then show ?thesis using "1.prems" by (simp add: chunk_loop.simps)
  next
    case True
    define btr where "btr = (if cl < 1024 then cl else 1024)"
    obtain f1 buf1 where rd: "lv_fs_read f buf (nat btr) = (f1, buf1)" by (cases "lv_fs_read f buf (nat btr)")
    from "1.prems" True rd obtain r1 s1 where
      fd: "feed E L s (take (nat btr) buf1) = Inr (r1, s1)"
      by (subst (asm) chunk_loop.simps) (auto simp: btr_def Let_def split: sum.splits)
    show ?thesis
    proof (cases "r1 < 0")
      case True
      then have "s' = s1" using "1.prems" \<open>cl > 0\<close> rd fd
        by (subst (asm) chunk_loop.simps) (auto simp: btr_def Let_def)
      then show ?thesis using feed_frame [OF fd] by simp
    next
      case False
      then have rec: "chunk_loop E L s1 f1 buf1 (cl - btr) = Inr (r, s', f')"
        using "1.prems" \<open>cl > 0\<close> rd fd
        by (subst (asm) chunk_loop.simps) (auto simp: btr_def Let_def)
      have "same_frame s1 s'"
        using "1.IH" [OF \<open>cl > 0\<close> btr_def rd [symmetric] fd _ False rec] by simp
      then show ?thesis using feed_frame [OF fd] same_frame_trans by blast
    qed
  qed
qed


lemma read_next_chunk_cases:
  assumes "read_next_chunk E L s f = Inr (r, s', f')"
  obtains (negative) "s' = s" "r = LV_RES_INV"
  | (rejected) buf r1 where "feed E L s (take 8 buf) = Inr (r1, s')" "r = LV_RES_INV"
  | (data) buf r1 s1 f1 cl where "feed E L s (take 8 buf) = Inr (r1, s1)"
      "chunk_loop E L s1 f1 buf cl = Inr (r, s', f')"
proof -
  obtain f1 buf where rd: "lv_fs_read f (stack_buf E 1024) 8 = (f1, buf)"
    by (cases "lv_fs_read f (stack_buf E 1024) 8")
  show thesis
  proof (cases "sint (chunk_length (char_signed E) buf) < 0")
    case True
    then show ?thesis using assms rd negative by (simp add: read_next_chunk_def)
  next
    case False
    then obtain r1 s1 where fd: "feed E L s (take 8 buf) = Inr (r1, s1)"
      using assms rd by (auto simp: read_next_chunk_def split: sum.splits)
    show ?thesis
    proof (cases "r1 < 0")
      case True
      then show ?thesis using assms rd False fd rejected by (simp add: read_next_chunk_def)
    next
      case nonneg: False
      then show ?thesis using assms rd False fd data by (simp add: read_next_chunk_def)
    qed
  qed
qed

lemma read_next_chunk_frame:
  assumes "read_next_chunk E L s f = Inr (r, s', f')"
  shows "same_frame s s'"
  using assms
proof (cases rule: read_next_chunk_cases)
  case negative
  then show ?thesis by simp
next
  case (rejected buf r1)
  then show ?thesis by (auto dest: feed_frame)
next
  case (data buf r1 s1 f1 cl)
  then show ?thesis by (blast intro: same_frame_trans feed_frame chunk_loop_frame)
qed

lemma header_loop_frame: "header_loop n E L s f = Some (Inr (r, s', f')) \<Longrightarrow> same_frame s s'"
proof (induction n arbitrary: s f)
  case 0
  then show ?case by simp
next
  case (Suc n)
  show ?case
  proof (cases "hdr_ready (pngle_get_user_data s)")
    case True
    then show ?thesis using Suc.prems by simp
  next
    case False
    then obtain r1 s1 f1 where 1: "read_next_chunk E L s f = Inr (r1, s1, f1)"
      using Suc.prems by (auto split: sum.splits)
    show ?thesis
    proof (cases "r1 = LV_RES_OK")
      case True
      then have "header_loop n E L s1 f1 = Some (Inr (r, s', f'))"
        using Suc.prems False 1 by simp
      from Suc.IH [OF this] read_next_chunk_frame [OF 1] show ?thesis
        by (rule same_frame_trans [rotated])
    next
      case False
      then have "s' = s1" using Suc.prems \<open>\<not> hdr_ready (pngle_get_user_data s)\<close> 1 by simp
      then show ?thesis using read_next_chunk_frame [OF 1] by simp
    qed
  qed
qed


lemma get_pngle_header_frame:
  assumes "get_pngle_header n E L s f = Some (Inr (r, s', f'))"
  shows "same_frame s s'"
proof -
  obtain f1 buf where rd: "lv_fs_read f (stack_buf E 8) 8 = (f1, buf)"
    by (cases "lv_fs_read f (stack_buf E 8) 8")
  obtain r1 s1 where fd: "feed E L s (take 8 buf) = Inr (r1, s1)"
    using assms rd by (auto simp: get_pngle_header_def split: sum.splits)
  show ?thesis
  proof (cases "r1 < 0")
    case True
    then have "s' = s1" using assms rd fd by (simp add: get_pngle_header_def)
    then show ?thesis using feed_frame [OF fd] by simp
  next
    case False
    then have "header_loop n E L s1 f1 = Some (Inr (r, s', f'))"
      using assms rd fd by (simp add: get_pngle_header_def)
    from header_loop_frame [OF this] feed_frame [OF fd] show ?thesis
      by (rule same_frame_trans [rotated])
  qed
qed

lemma get_pngle_data_frame: "get_pngle_data n E L s f = Some (Inr (r, s', f')) \<Longrightarrow> same_frame s s'"
proof (induction n arbitrary: s f)
  case 0
  then show ?case by simp
next
  case (Suc n)
  obtain r1 s1 f1 where 1: "read_next_chunk E L s f = Inr (r1, s1, f1)"
    using Suc.prems by (auto split: sum.splits)
  note fr = read_next_chunk_frame [OF 1]
  show ?case
  proof (cases "r1 = LV_RES_OK \<and> \<not> data_ready (pngle_get_user_data s1)")
    case True
    then have "get_pngle_data n E L s1 f1 = Some (Inr (r, s', f'))"
      using Suc.prems 1 by simp
    from Suc.IH [OF this] fr show ?thesis by (rule same_frame_trans [rotated])
  next
    case False
    then have "s' = s1" using Suc.prems 1 by (auto split: if_splits)
    then show ?thesis using fr by simp
  qed
qed

lemma memory_loop_frame:
  "memory_loop n E L s bytes pos sz = Some (Inr (failed, s')) \<Longrightarrow> same_frame s s'"
proof (induction n arbitrary: s pos)
  case 0
  then show ?case by simp
next
  case (Suc n)
  define btr where "btr = (if sz < 1024 then sz else 1024)"
  show ?case
  proof (cases "data_ready (ud s)")
    case True
    then show ?thesis using Suc.prems by simp
  next
    case False
    then have inb: "\<not> length bytes < unat pos + unat btr"
      using Suc.prems by (auto simp: btr_def Let_def split: if_splits)
    then obtain r1 s1 where fd: "feed E L s (take (unat btr) (drop (unat pos) bytes)) = Inr (r1, s1)"
      using Suc.prems False by (auto simp: btr_def Let_def split: sum.splits)
    note fr = feed_frame [OF fd]
    show ?thesis
    proof (cases "r1 < 0")
      case True
      then have "s' = s1" using Suc.prems False inb fd by (simp add: btr_def Let_def)
      then show ?thesis using fr by simp
    next
      case nonneg: False
      then have "memory_loop n E L s1 bytes (pos + btr) sz = Some (Inr (failed, s'))"
        using Suc.prems False inb fd by (simp add: btr_def Let_def)
      from Suc.IH [OF this] fr show ?thesis by (rule same_frame_trans [rotated])
    qed
  qed
qed


section \<open>Lemmas on \<open>pngle_decoder_open\<close>\<close>

lemma finish_ok:
  assumes "finish failed s dsc = Inr r" and "result r = LV_RES_OK"
  shows "\<not> failed" "callocs_out r = callocs s" "pixels_out r = pixels s" "frees_out r = frees s"
    "dsc_out r = dsc\<lparr>img_data := data (ud s)\<rparr>"
    "width_out r = png_width s" "height_out r = png_height s"
  using assms by (auto simp: finish_def split: if_splits sum.splits)

lemma new_session_fields [simp]:
  "callocs (new_session p x cbs) = []" "frees (new_session p x cbs) = []"
  "pixels (new_session p x cbs) = []" "ud (new_session p x cbs) = x"
  "user_data (new_session p x cbs) = Ud_malloc" "pngle (new_session p x cbs) = p"
  "draw_callback (new_session p x cbs) = fst cbs" "init_callback (new_session p x cbs) = fst (snd cbs)"
  "done_callback (new_session p x cbs) = snd (snd cbs)"
  "ud_malloc (new_session p x cbs) = \<lparr>hdr_ready = False, data_ready = False, data = Wild\<rparr>"
  "png_width (new_session p x cbs) = 0" "png_height (new_session p x cbs) = 0"
  by (simp_all add: new_session_def lv_pngle_data_init_def)

lemma buffer_init_fields:
  assumes "calloc_ok E"
  shows "callocs (lv_pngle_buffer_init E n_px s) = callocs s @ [unat (buffer_size (depth E) n_px)]"
    "pixels (lv_pngle_buffer_init E n_px s) = replicate (unat (buffer_size (depth E) n_px)) 0"
    "ud (lv_pngle_buffer_init E n_px s) = (ud s)\<lparr>data := Buf 0\<rparr>"
    "frees (lv_pngle_buffer_init E n_px s) = frees s"
    "png_width (lv_pngle_buffer_init E n_px s) = png_width s"
    "png_height (lv_pngle_buffer_init E n_px s) = png_height s"
  using assms by (simp_all add: lv_pngle_buffer_init_def)

lemma open_unsupported:
  "src dsc = Src_symbol sy \<or> src dsc = Src_unknown \<Longrightarrow>
   pngle_decoder_open fuel E L dsc =
     Some (Inr \<lparr>result = LV_RES_INV, dsc_out = dsc, width_out = 0, height_out = 0, pixels_out = [],
                    callocs_out = [], frees_out = []\<rparr>)"
  by (auto simp: pngle_decoder_open_def src_type_def)

lemma open_no_parser:
  "pngle_new L = None \<Longrightarrow>
   pngle_decoder_open fuel E L dsc =
     Some (Inr \<lparr>result = LV_RES_INV, dsc_out = dsc, width_out = 0, height_out = 0, pixels_out = [],
                    callocs_out = [], frees_out = []\<rparr>)"
  by (simp add: pngle_decoder_open_def)

lemma open_file:
  assumes "pngle_new L = Some p" and "src dsc = Src_file fn"
  shows "pngle_decoder_open fuel E L dsc =
    (case png_suffix fn of
       Inl err \<Rightarrow> Some (Inl err)
     | Inr False \<Rightarrow> Some (finish False (session0 p) dsc)
     | Inr True \<Rightarrow>
         (case fs E fn of
            None \<Rightarrow> Some (finish True (session0 p) dsc)
          | Some f \<Rightarrow>
              (case get_pngle_header fuel E L (session0 p) f of
                 None \<Rightarrow> None
               | Some (Inl err) \<Rightarrow> Some (Inl err)
               | Some (Inr (r, s1, f1)) \<Rightarrow>
                   if r = LV_RES_OK then
                     (case get_pngle_data fuel E L
                             ((lv_pngle_buffer_init E
                                 (pngle_get_width L (pngle s1) * pngle_get_height L (pngle s1))
                                 (s1\<lparr>png_width := pngle_get_width L (pngle s1),
                                     png_height := pngle_get_height L (pngle s1)\<rparr>))
                              \<lparr>user_data := Ud_local\<rparr>) f1 of
                        None \<Rightarrow> None
                      | Some (Inl err) \<Rightarrow> Some (Inl err)
                      | Some (Inr (r2, s2, f2)) \<Rightarrow> Some (finish (r2 \<noteq> LV_RES_OK) s2 dsc))
                   else Some (finish True s1 dsc))))"
  using assms by (simp add: pngle_decoder_open_def src_type_def Let_def)

lemma open_variable:
  assumes "pngle_new L = Some p" and "src dsc = Src_variable img_src"
  shows "pngle_decoder_open fuel E L dsc =
    (case memory_loop fuel E L
            ((lv_pngle_buffer_init E (header_w (header dsc) * header_h (header dsc))
                ((session0 p)\<lparr>png_width := header_w (header dsc), png_height := header_h (header dsc)\<rparr>))
             \<lparr>user_data := Ud_local\<rparr>)
            (img_bytes img_src) 0 (data_size img_src) of
       None \<Rightarrow> None
     | Some (Inl err) \<Rightarrow> Some (Inl err)
     | Some (Inr (failed, s2)) \<Rightarrow> Some (finish failed s2 dsc))"
  using assms by (simp add: pngle_decoder_open_def src_type_def Let_def)


lemma session0_fields [simp]:
  "callocs (session0 p) = []" "frees (session0 p) = []" "pixels (session0 p) = []"
  "ud (session0 p) = \<lparr>hdr_ready = False, data_ready = False, data = NULL\<rparr>"
  "user_data (session0 p) = Ud_malloc" "pngle (session0 p) = p"
  "draw_callback (session0 p)" "init_callback (session0 p)" "done_callback (session0 p)"
  "png_width (session0 p) = 0" "png_height (session0 p) = 0"
  by (simp_all add: session0_def)

lemma open_success_allocs:
  fixes L :: "'p pngle_lib"
  assumes run: "pngle_decoder_open fuel E L dsc = Some (Inr r)"
    and ok: "result r = LV_RES_OK" and dec: "decodes (src dsc)" and al: "calloc_ok E"
  shows "callocs_out r = [unat (buffer_size (depth E) (width_out r * height_out r))]"
    and "length (pixels_out r) = unat (buffer_size (depth E) (width_out r * height_out r))"
    and "frees_out r = []"
proof -
  obtain p where p: "pngle_new L = Some p"
    using run ok by (cases "pngle_new L") (auto simp: open_no_parser)
  obtain s s1 :: "'p session" and wd ht where f: "finish False s dsc = Inr r"
    and c: "callocs s1 = []" "frees s1 = []"
    and fr: "same_frame ((lv_pngle_buffer_init E (wd * ht) (s1\<lparr>png_width := wd, png_height := ht\<rparr>))
                          \<lparr>user_data := Ud_local\<rparr>) s"
  proof (cases "src dsc")
    case (Src_file fn)
    note o = run [unfolded open_file [OF p Src_file]]
    show ?thesis
    proof (cases "png_suffix fn")
      case (Inl err)
      then show ?thesis using o by simp
    next
      case (Inr b)
      show ?thesis
      proof (cases b)
        case False
        then show ?thesis using dec Src_file Inr by simp
      next
        case True
        show ?thesis
        proof (cases "fs E fn")
          case None
          then have "finish True (session0 p) dsc = Inr r" using o Inr True by simp
          then show ?thesis using ok by (auto simp: finish_def split: if_splits sum.splits)
        next
          case (Some f)
          then obtain r1 s1 f1 where h: "get_pngle_header fuel E L (session0 p) f = Some (Inr (r1, s1, f1))"
            using o Inr True by (auto split: option.splits sum.splits)
          have r1: "r1 = LV_RES_OK"
          proof (rule ccontr)
            assume "r1 \<noteq> LV_RES_OK"
            then have "finish True s1 dsc = Inr r" using o Inr True Some h by simp
            then show False using ok by (auto simp: finish_def split: if_splits sum.splits)
          qed
          define wd where "wd = pngle_get_width L (pngle s1)"
          define ht where "ht = pngle_get_height L (pngle s1)"
          obtain r2 s2 f2 where
            d: "get_pngle_data fuel E L
                  ((lv_pngle_buffer_init E (wd * ht) (s1\<lparr>png_width := wd, png_height := ht\<rparr>))
                   \<lparr>user_data := Ud_local\<rparr>) f1 = Some (Inr (r2, s2, f2))"
            and f: "finish (r2 \<noteq> LV_RES_OK) s2 dsc = Inr r"
            using o Inr True Some h r1 by (auto simp: wd_def ht_def split: option.splits sum.splits)
          have "\<not> (r2 \<noteq> LV_RES_OK)" using finish_ok(1) [OF f ok] .
          then have f': "finish False s2 dsc = Inr r" using f by simp
          have "callocs s1 = []" "frees s1 = []"
            using get_pngle_header_frame [OF h] by (simp_all add: same_frame_def)
          then show ?thesis using that [OF f' _ _ get_pngle_data_frame [OF d]] by simp
        qed
      qed
    qed
  next
    case (Src_variable img_src)
    note o = run [unfolded open_variable [OF p Src_variable]]
    then obtain failed s2 where
      m: "memory_loop fuel E L
            ((lv_pngle_buffer_init E (header_w (header dsc) * header_h (header dsc))
                ((session0 p)\<lparr>png_width := header_w (header dsc), png_height := header_h (header dsc)\<rparr>))
             \<lparr>user_data := Ud_local\<rparr>) (img_bytes img_src) 0 (data_size img_src) = Some (Inr (failed, s2))"
      and f: "finish failed s2 dsc = Inr r"
      by (auto split: option.splits sum.splits)
    have "\<not> failed" using finish_ok(1) [OF f ok] .
    then have f': "finish False s2 dsc = Inr r" using f by simp
    show ?thesis using that [OF f' _ _ memory_loop_frame [OF m]] by simp
  next
    case (Src_symbol sy)
    then show ?thesis using run ok by (auto simp: open_unsupported)
  next
    case Src_unknown
    then show ?thesis using run ok by (auto simp: open_unsupported)
  qed
  have wh: "png_width s = wd" "png_height s = ht"
    using fr by (simp_all add: same_frame_def buffer_init_fields lv_pngle_buffer_init_def)
  have "callocs s = [unat (buffer_size (depth E) (wd * ht))]"
    using fr al c by (simp add: same_frame_def buffer_init_fields)
  moreover have "length (pixels s) = unat (buffer_size (depth E) (wd * ht))"
    using fr al by (simp add: same_frame_def buffer_init_fields)
  moreover have "frees s = []"
    using fr al c by (simp add: same_frame_def buffer_init_fields)
  ultimately show "callocs_out r = [unat (buffer_size (depth E) (width_out r * height_out r))]"
    and "length (pixels_out r) = unat (buffer_size (depth E) (width_out r * height_out r))"
    and "frees_out r = []"
    using finish_ok [OF f ok] wh by simp_all
qed

lemma open_variable_dims:
  fixes L :: "'p pngle_lib"
  assumes run: "pngle_decoder_open fuel E L dsc = Some (Inr r)"
    and ok: "result r = LV_RES_OK" and sr: "src dsc = Src_variable img"
  shows "width_out r = header_w (header dsc) \<and> height_out r = header_h (header dsc)"
proof -
  obtain p where p: "pngle_new L = Some p"
    using run ok by (cases "pngle_new L") (auto simp: open_no_parser)
  note o = run [unfolded open_variable [OF p sr]]
  then obtain failed and s2 :: "'p session" where
    m: "memory_loop fuel E L
          ((lv_pngle_buffer_init E (header_w (header dsc) * header_h (header dsc))
              ((session0 p)\<lparr>png_width := header_w (header dsc), png_height := header_h (header dsc)\<rparr>))
           \<lparr>user_data := Ud_local\<rparr>) (img_bytes img) 0 (data_size img) = Some (Inr (failed, s2))"
    and f: "finish failed s2 dsc = Inr r"
    by (auto split: option.splits sum.splits)
  have "png_width s2 = header_w (header dsc)" "png_height s2 = header_h (header dsc)"
    using memory_loop_frame [OF m] by (simp_all add: same_frame_def lv_pngle_buffer_init_def)
  then show ?thesis using finish_ok(6,7) [OF f ok] by simp
qed

lemma open_file_dims:
  fixes L :: "'p pngle_lib"
  assumes run: "pngle_decoder_open fuel E L dsc = Some (Inr r)"
    and ok: "result r = LV_RES_OK" and sr: "src dsc = Src_file fn" and sf: "png_suffix fn = Inr True"
    and p: "pngle_new L = Some p" and fl: "fs E fn = Some f"
    and h: "get_pngle_header fuel E L (session0 p) f = Some (Inr (LV_RES_OK, s1, f1))"
  shows "width_out r = pngle_get_width L (pngle s1) \<and> height_out r = pngle_get_height L (pngle s1)"
proof -
  note o = run [unfolded open_file [OF p sr]]
  then obtain r2 f2 and s2 :: "'p session" where
    d: "get_pngle_data fuel E L
          ((lv_pngle_buffer_init E (pngle_get_width L (pngle s1) * pngle_get_height L (pngle s1))
              (s1\<lparr>png_width := pngle_get_width L (pngle s1), png_height := pngle_get_height L (pngle s1)\<rparr>))
           \<lparr>user_data := Ud_local\<rparr>) f1 = Some (Inr (r2, s2, f2))"
    and f: "finish (r2 \<noteq> LV_RES_OK) s2 dsc = Inr r"
    using sf fl h by (auto split: option.splits sum.splits)
  have "png_width s2 = pngle_get_width L (pngle s1)" "png_height s2 = pngle_get_height L (pngle s1)"
    using get_pngle_data_frame [OF d] by (simp_all add: same_frame_def lv_pngle_buffer_init_def)
  then show ?thesis using finish_ok(6,7) [OF f ok] by simp
qed

lemma finish_failed_dsc:
  "finish failed s dsc = Inr r \<Longrightarrow> result r \<noteq> LV_RES_OK \<Longrightarrow> dsc_out r = dsc"
  by (auto simp: finish_def split: if_splits sum.splits)

lemma open_failure_keeps_dsc:
  fixes L :: "'p pngle_lib"
  assumes run: "pngle_decoder_open fuel E L dsc = Some (Inr r)" and inv: "result r \<noteq> LV_RES_OK"
  shows "dsc_out r = dsc"
proof (cases "pngle_new L")
  case None
  then show ?thesis using run by (auto simp: open_no_parser)
next
  case (Some p)
  show ?thesis
  proof (cases "src dsc")
    case (Src_file fn)
    note o = run [unfolded open_file [OF Some Src_file]]
    then obtain failed and s :: "'p session" where "finish failed s dsc = Inr r"
      by (auto split: sum.splits bool.splits option.splits if_splits)
    then show ?thesis using inv by (rule finish_failed_dsc)
  next
    case (Src_variable img_src)
    note o = run [unfolded open_variable [OF Some Src_variable]]
    then obtain failed and s :: "'p session" where "finish failed s dsc = Inr r"
      by (auto split: sum.splits option.splits)
    then show ?thesis using inv by (rule finish_failed_dsc)
  next
    case (Src_symbol sy)
    then show ?thesis using run by (auto simp: open_unsupported)
  next
    case Src_unknown
    then show ?thesis using run by (auto simp: open_unsupported)
  qed
qed

section \<open>Evaluation on concrete input\<close>

lemma replicate_numeral: "replicate (numeral n) x = x # replicate (pred_numeral n) x"
  by (simp add: numeral_eq_Suc)

lemma list_update_Cons_numeral: "(x # xs)[numeral n := y] = x # xs[pred_numeral n := y]"
  by (simp add: numeral_eq_Suc)

lemmas eval_defs = replicate_numeral list_update_Cons_numeral pngle_decoder_open_def src_type_def session0_def new_session_def lv_pngle_data_init_def
  lv_pngle_buffer_init_def feed_def script_lib_def pngle_get_user_data_def put_user_data_def
  pngle_draw_cb_def pngle_done_cb_def pngle_init_cb_def store_inc_def finish_def free_def Let_def

lemmas example_defs = example_env_def example_header_def memory_dsc_def file_dsc_def

lemma memory_decode_example:
  "pngle_decoder_open (Suc (Suc 0)) (example_env (\<lambda>fn. None))
     (script_lib 1 1 [(4, [Init_event, Draw_event (1, 2, 3, 4), Done_event])])
     (memory_dsc 1 1 [1, 2, 3, 4])
   = Some (Inr \<lparr>result = LV_RES_OK, dsc_out = (memory_dsc 1 1 [1, 2, 3, 4])\<lparr>img_data := Buf 0\<rparr>,
        width_out = 1, height_out = 1, pixels_out = [3, 2, 1, 4], callocs_out = [4], frees_out = []\<rparr>)"
  by (simp add: eval_defs example_defs)

lemmas eval_file_defs = src_type_def session0_def new_session_def lv_pngle_data_init_def
  lv_pngle_buffer_init_def feed_def script_lib_def pngle_get_user_data_def put_user_data_def
  pngle_draw_cb_def pngle_done_cb_def pngle_init_cb_def store_inc_def finish_def free_def Let_def
  get_pngle_header_def read_next_chunk_def chunk_loop.simps lv_fs_read_def stack_buf_def
  chunk_length_def char_to_int_def png_suffix_def list_update_Cons_numeral


section \<open>Lemmas on the chunk reader and the feed loop\<close>

lemma be_or_plus:
  fixes a b c d :: u8
  shows "(push_bit 24 (ucast a) OR push_bit 16 (ucast b) OR push_bit 8 (ucast c) OR ucast d :: u32)
     = push_bit 24 (ucast a) + (push_bit 16 (ucast b) + (push_bit 8 (ucast c) + ucast d))"
proof -
  have 1: "(push_bit 8 (ucast c) OR ucast d :: u32) = push_bit 8 (ucast c) + ucast d"
    by (rule disjunctive_add [symmetric]) (auto simp: bit_simps dest: bit_imp_le_length)
  have 2: "(push_bit 16 (ucast b) OR (push_bit 8 (ucast c) OR ucast d) :: u32)
      = push_bit 16 (ucast b) + (push_bit 8 (ucast c) OR ucast d)"
    by (rule disjunctive_add [symmetric]) (auto simp: bit_simps dest: bit_imp_le_length)
  have 3: "(push_bit 24 (ucast a) OR (push_bit 16 (ucast b) OR (push_bit 8 (ucast c) OR ucast d)) :: u32)
      = push_bit 24 (ucast a) + (push_bit 16 (ucast b) OR (push_bit 8 (ucast c) OR ucast d))"
    by (rule disjunctive_add [symmetric]) (auto simp: bit_simps dest: bit_imp_le_length)
  show ?thesis by (subst 3, subst 2, subst 1) (rule refl)
qed

lemma chunk_length_unsigned:
  "chunk_length False buf = of_nat (big_endian_u32 buf) + 4"
  unfolding chunk_length_def char_to_int_def big_endian_u32_def if_False be_or_plus
  by (simp add: push_bit_eq_mult)

lemma bursts_props: "concat (bursts xs) = xs \<and> (\<forall>b \<in> set (bursts xs). b \<noteq> [] \<and> length b \<le> 1024)"
proof (induction xs rule: bursts.induct)
  case (1 xs)
  show ?case
  proof (cases "xs = []")
    case True
    then show ?thesis by (simp add: bursts.simps)
  next
    case False
    then show ?thesis using 1 by (subst (1 2) bursts.simps) auto
  qed
qed

lemma chunk_loop_feed_all:
  "0 \<le> cl \<Longrightarrow> nat cl \<le> length f \<Longrightarrow>
   forget_file (chunk_loop E L s f buf cl) = feed_all E L s (bursts (take (nat cl) f))"
proof (induction E L s f buf cl rule: chunk_loop.induct)
  case (1 E L s f buf cl)
  show ?case
  proof (cases "cl > 0")
    case False
    then have "cl = 0" using "1.prems" by simp
    then show ?thesis by (simp add: chunk_loop.simps bursts.simps forget_file_def)
  next
    case True
    define btr where "btr = (if cl < 1024 then cl else 1024)"
    have btr: "0 < btr" "btr \<le> cl" "btr \<le> 1024" using True by (auto simp: btr_def)
    define f1 where "f1 = drop (nat btr) f"
    define buf1 where "buf1 = take (nat btr) f @ drop (length (take (nat btr) f)) buf"
    have rd: "lv_fs_read f buf (nat btr) = (f1, buf1)" by (simp add: lv_fs_read_def f1_def buf1_def)
    have len: "nat btr \<le> length f" using btr "1.prems" by simp
    then have burst: "take (nat btr) buf1 = take (nat btr) f" by (simp add: buf1_def)
    have tk: "take (nat cl) f \<noteq> []" using True "1.prems" by auto
    have hd: "take 1024 (take (nat cl) f) = take (nat btr) f"
      using btr True by (auto simp: btr_def min_def)
    have tl: "drop 1024 (take (nat cl) f) = take (nat (cl - btr)) f1"
      using btr True by (auto simp: btr_def f1_def drop_take nat_diff_distrib)
    have unf: "bursts (take (nat cl) f) = take (nat btr) f # bursts (take (nat (cl - btr)) f1)"
      by (subst bursts.simps) (simp only: hd tl tk if_False)
    show ?thesis
    proof (cases "feed E L s (take (nat btr) f)")
      case (Inl err)
      then show ?thesis using True rd burst unf
        by (subst chunk_loop.simps) (simp add: btr_def [symmetric] forget_file_def)
    next
      case (Inr a)
      obtain r1 s1 where a: "a = (r1, s1)" by (cases a)
      show ?thesis
      proof (cases "r1 < 0")
        case neg: True
        then show ?thesis using True rd burst unf Inr a
          by (subst chunk_loop.simps) (simp add: btr_def [symmetric] forget_file_def)
      next
        case nonneg: False
        have fd: "feed E L s (take (nat btr) buf1) = Inr (r1, s1)" using Inr a burst by simp
        have "forget_file (chunk_loop E L s1 f1 buf1 (cl - btr)) = feed_all E L s1 (bursts (take (nat (cl - btr)) f1))"
          using "1.IH" [OF True btr_def rd [symmetric] fd _ nonneg] btr "1.prems"
          by (simp add: f1_def)
        then show ?thesis using True rd burst unf Inr a nonneg
          by (subst chunk_loop.simps) (simp add: btr_def [symmetric])
      qed
    qed
  qed
qed


lemma chunk_loop_burst_reads:
  "forget_file (chunk_loop E L s f buf cl) = feed_all E L s (burst_reads f buf cl)"
proof (induction E L s f buf cl rule: chunk_loop.induct)
  case (1 E L s f buf cl)
  show ?case
  proof (cases "cl > 0")
    case False
    then show ?thesis by (simp add: chunk_loop.simps burst_reads.simps forget_file_def)
  next
    case True
    define btr where "btr = (if cl < 1024 then cl else 1024)"
    obtain f1 buf1 where rd: "lv_fs_read f buf (nat btr) = (f1, buf1)" by (cases "lv_fs_read f buf (nat btr)")
    have unf: "burst_reads f buf cl = take (nat btr) buf1 # burst_reads f1 buf1 (cl - btr)"
      using True rd by (subst burst_reads.simps) (simp add: btr_def [symmetric])
    show ?thesis
    proof (cases "feed E L s (take (nat btr) buf1)")
      case (Inl err)
      then show ?thesis using True rd unf
        by (subst chunk_loop.simps) (simp add: btr_def [symmetric] forget_file_def)
    next
      case (Inr a)
      obtain r1 s1 where a: "a = (r1, s1)" by (cases a)
      show ?thesis
      proof (cases "r1 < 0")
        case neg: True
        then show ?thesis using True rd unf Inr a
          by (subst chunk_loop.simps) (simp add: btr_def [symmetric] forget_file_def)
      next
        case nonneg: False
        have fd: "feed E L s (take (nat btr) buf1) = Inr (r1, s1)" using Inr a by simp
        have "forget_file (chunk_loop E L s1 f1 buf1 (cl - btr)) = feed_all E L s1 (burst_reads f1 buf1 (cl - btr))"
          using "1.IH" [OF True btr_def rd [symmetric] fd _ nonneg] by simp
        then show ?thesis using True rd unf Inr a nonneg
          by (subst chunk_loop.simps) (simp add: btr_def [symmetric])
      qed
    qed
  qed
qed

lemma read_next_chunk_feeds:
  "forget_file (read_next_chunk E L s f) =
     (if sint (chunk_length (char_signed E) (snd (lv_fs_read f (stack_buf E 1024) 8))) < 0
      then Inr (LV_RES_INV, s) else feed_all E L s (chunk_feeds E f))"
proof -
  obtain f1 buf where rd: "lv_fs_read f (stack_buf E 1024) 8 = (f1, buf)"
    by (cases "lv_fs_read f (stack_buf E 1024) 8")
  show ?thesis
  proof (cases "sint (chunk_length (char_signed E) buf) < 0")
    case True
    then show ?thesis using rd by (simp add: read_next_chunk_def forget_file_def)
  next
    case False
    show ?thesis
    proof (cases "feed E L s (take 8 buf)")
      case (Inl err)
      then show ?thesis using rd False
        by (simp add: read_next_chunk_def forget_file_def chunk_feeds_def)
    next
      case (Inr a)
      obtain r1 s1 where a: "a = (r1, s1)" by (cases a)
      show ?thesis
      proof (cases "r1 < 0")
        case True
        then show ?thesis using rd False Inr a
          by (simp add: read_next_chunk_def forget_file_def chunk_feeds_def)
      next
        case nonneg: False
        then show ?thesis using rd False Inr a chunk_loop_burst_reads [of E L s1 f1 buf]
          by (simp add: read_next_chunk_def chunk_feeds_def)
      qed
    qed
  qed
qed

lemma feed_all_INV_iff:
  "(\<exists>s'. feed_all E L s bss = Inr (LV_RES_INV, s')) \<longleftrightarrow> (\<exists>r \<in> set (feed_results E L s bss). r < 0)"
proof (induction bss arbitrary: s)
  case Nil
  then show ?case by simp
next
  case (Cons b bss)
  show ?case
  proof (cases "feed E L s b")
    case (Inl err)
    then show ?thesis by simp
  next
    case (Inr a)
    obtain r1 s1 where a: "a = (r1, s1)" by (cases a)
    show ?thesis
    proof (cases "r1 < 0")
      case True
      then show ?thesis using Inr a by simp
    next
      case False
      then show ?thesis using Inr a Cons.IH [of s1] by simp
    qed
  qed
qed

lemma forget_file_INV_iff:
  "(\<exists>s' f'. x = Inr (LV_RES_INV, s', f')) \<longleftrightarrow> (\<exists>s'. forget_file x = Inr (LV_RES_INV, s'))"
  by (auto simp: forget_file_def split: sum.splits)

lemma big_endian_u32_cong:
  assumes "4 \<le> length xs" and "take 4 ys = take 4 xs"
  shows "big_endian_u32 ys = big_endian_u32 xs"
proof -
  have "ys ! i = xs ! i" if "i < 4" for i
    using nth_take [of i 4 ys] nth_take [of i 4 xs] that assms(2) by simp
  then show ?thesis by (simp add: big_endian_u32_def)
qed

lemma read_next_chunk_unsigned:
  assumes us: "\<not> char_signed E" and len: "8 \<le> length f"
    and whole: "sint (of_nat (big_endian_u32 f) + 4 :: c_int) < 0
                \<or> 8 + nat (sint (of_nat (big_endian_u32 f) + 4 :: c_int)) \<le> length f"
  shows "sint (chunk_length (char_signed E) (snd (lv_fs_read f (stack_buf E 1024) 8)))
           = sint (of_nat (big_endian_u32 f) + 4 :: c_int)"
    and "forget_file (read_next_chunk E L s f) =
           (if sint (of_nat (big_endian_u32 f) + 4 :: c_int) < 0 then Inr (LV_RES_INV, s)
            else feed_all E L s
                   (take 8 f # bursts (take (nat (sint (of_nat (big_endian_u32 f) + 4 :: c_int))) (drop 8 f))))"
proof -
  define buf where "buf = take 8 f @ drop (length (take 8 f)) (stack_buf E 1024)"
  define cl where "cl = sint (of_nat (big_endian_u32 f) + 4 :: c_int)"
  have rd: "lv_fs_read f (stack_buf E 1024) 8 = (drop 8 f, buf)"
    by (simp add: lv_fs_read_def buf_def)
  have "take 4 buf = take 4 f" using len by (simp add: buf_def)
  then have be: "big_endian_u32 buf = big_endian_u32 f"
    using len by (intro big_endian_u32_cong) simp_all
  have cl: "sint (chunk_length (char_signed E) buf) = cl"
    using us by (simp add: chunk_length_unsigned be cl_def)
  show "sint (chunk_length (char_signed E) (snd (lv_fs_read f (stack_buf E 1024) 8)))
           = sint (of_nat (big_endian_u32 f) + 4 :: c_int)"
    using cl rd by (simp add: cl_def)
  have hdr: "take 8 buf = take 8 f" using len by (simp add: buf_def)
  show "forget_file (read_next_chunk E L s f) =
           (if sint (of_nat (big_endian_u32 f) + 4 :: c_int) < 0 then Inr (LV_RES_INV, s)
            else feed_all E L s
                   (take 8 f # bursts (take (nat (sint (of_nat (big_endian_u32 f) + 4 :: c_int))) (drop 8 f))))"
  proof (cases "cl < 0")
    case True
    then show ?thesis using rd cl by (simp add: read_next_chunk_def forget_file_def cl_def)
  next
    case False
    then have fits: "0 \<le> cl" "nat cl \<le> length (drop 8 f)" using whole by (auto simp: cl_def)
    note loop = chunk_loop_feed_all [OF fits, of E L _ buf]
    show ?thesis
    proof (cases "feed E L s (take 8 f)")
      case (Inl err)
      then show ?thesis using rd cl hdr False
        by (simp add: read_next_chunk_def forget_file_def cl_def [symmetric])
    next
      case (Inr a)
      obtain r1 s1 where a: "a = (r1, s1)" by (cases a)
      show ?thesis
      proof (cases "r1 < 0")
        case True
        then show ?thesis using rd cl hdr False Inr a
          by (simp add: read_next_chunk_def forget_file_def cl_def [symmetric])
      next
        case nonneg: False
        then show ?thesis using rd cl hdr False Inr a loop [of s1]
          by (simp add: read_next_chunk_def cl_def [symmetric])
      qed
    qed
  qed
qed


lemma feed_noop_on_empty: "feed E (noop_on_empty L p) s [] = Inr (0, s)"
  by (simp add: feed_def noop_on_empty_def put_user_data_def pngle_get_user_data_def split: ud_ref.splits)

lemma memory_loop_size_0:
  assumes "\<not> data_ready (ud s)"
  shows "memory_loop n E (noop_on_empty L p) s bytes 0 0 = None"
  using assms
proof (induction n)
  case 0
  then show ?case by simp
next
  case (Suc n)
  then show ?case by (simp add: feed_noop_on_empty)
qed

section \<open>Claims\<close>

text \<open>
  C1. For every RGBA quadruplet, \<open>pngle_draw_cb\<close> writes at the cursor exactly the bytes
  that the packing table of the specification prescribes for the build's colour depth,
  leaves the rest of the buffer as it was and advances the cursor past them: B, G, R, A
  at depth 32; the 16-bit value
  \<open>((R & 0xF8) << 8) | ((G & 0xFC) << 3) | ((B & 0xF8) >> 3)\<close>, low byte first, then A
  at depth 16; \<open>(R & 0xE0) | ((G & 0xE0) >> 3) | ((B & 0xC0) >> 6)\<close> then A at depth 8;
  \<open>((R | G | B) & 0x80) >> 7\<close> then A at depth 1. The quadruplet
  \<open>(0xFF, 0x00, 0x00, 0x80)\<close> is stored as \<open>00 00 FF 80\<close>, as \<open>00 F8 80\<close> (the value
  \<open>0xF800\<close> low byte first), as \<open>E0 80\<close> and as \<open>01 80\<close>.
\<close>

theorem pngle_draw_cb_packing:
  assumes "data u = Buf (int k)"
    and "k + length (spec_packing d r g b a) \<le> length mem"
  shows "pngle_draw_cb d (u, mem) (r, g, b, a) =
           Inr (u\<lparr>data := Buf (int (k + length (spec_packing d r g b a)))\<rparr>,
                take k mem @ spec_packing d r g b a @ drop (k + length (spec_packing d r g b a)) mem)
         \<and> packed Depth32 (0xFF, 0x00, 0x00, 0x80) = [0x00, 0x00, 0xFF, 0x80]
         \<and> col16 0xFF 0x00 0x00 = 0xF800
         \<and> packed Depth16 (0xFF, 0x00, 0x00, 0x80) = [0x00, 0xF8, 0x80]
         \<and> packed Depth8 (0xFF, 0x00, 0x00, 0x80) = [0xE0, 0x80]
         \<and> packed Depth1 (0xFF, 0x00, 0x00, 0x80) = [0x01, 0x80]"
proof -
  have "pngle_draw_cb d (u, mem) (r, g, b, a) =
           Inr (u\<lparr>data := Buf (int (k + length (spec_packing d r g b a)))\<rparr>,
                take k mem @ spec_packing d r g b a @ drop (k + length (spec_packing d r g b a)) mem)"
    unfolding pngle_draw_cb_def packed_spec using assms by (rule stores_in_bounds)
  then show ?thesis by (simp add: col16_def col8_def col1_def)
qed

theorem pngle_draw_cb_packing_witness:
  "pngle_draw_cb Depth16 (\<lparr>hdr_ready = False, data_ready = False, data = Buf 0\<rparr>, [0, 0, 0, 0])
       (0xFF, 0x00, 0x00, 0x80)
     = Inr (\<lparr>hdr_ready = False, data_ready = False, data = Buf 3\<rparr>, [0x00, 0xF8, 0x80, 0])"
  using pngle_draw_cb_packing
    [where u = "\<lparr>hdr_ready = False, data_ready = False, data = Buf 0\<rparr>" and k = 0 and d = Depth16
       and r = "0xFF" and g = "0x00" and b = "0x00" and a = "0x80" and mem = "[0, 0, 0, 0]"]
  by (simp add: spec_rgb565_def)

text \<open>
  C2. The chunk length of \<open>read_next_chunk\<close> is the big-endian reading of the four
  length bytes plus 4 only where plain \<open>char\<close> is unsigned. Where it is signed, a length
  byte of \<open>0x80\<close> or more is sign-extended before it is shifted: for the chunk header
  \<open>00 00 00 80 49 44 41 54\<close> (an IDAT chunk of 128 bytes) the computed length is
  \<open>-124\<close>, not 132, and \<open>read_next_chunk\<close> returns \<open>LV_RES_INV\<close> without feeding the
  parser.
\<close>

theorem read_next_chunk_signed_char:
  "sint (chunk_length True ([0, 0, 0, 0x80, 0x49, 0x44, 0x41, 0x54] @ junk)) = - 124
   \<and> sint (chunk_length False ([0, 0, 0, 0x80, 0x49, 0x44, 0x41, 0x54] @ junk)) = 132
   \<and> big_endian_u32 [0, 0, 0, 0x80] + 4 = 132
   \<and> read_next_chunk (E\<lparr>char_signed := True\<rparr>) L s ([0, 0, 0, 0x80, 0x49, 0x44, 0x41, 0x54] @ rest)
         = Inr (LV_RES_INV, s, rest)"
  by (simp add: read_next_chunk_def lv_fs_read_def chunk_length_def char_to_int_def big_endian_u32_def)

text \<open>
  C3, as stated, fails: a decode can succeed without an allocation, and the size of the
  block is a \<open>uint32_t\<close> product, which wraps. The decode of the file \<open>image.jpg\<close>
  returns \<open>LV_RES_OK\<close> and has not called \<open>calloc\<close>. The decode of \<open>huge_png\<close>, whose
  header declares 65536 by 65536 pixels, with a parser that reports these dimensions and
  completes without delivering a pixel, returns \<open>LV_RES_OK\<close> after the one call
  \<open>calloc(0, 1)\<close>, where \<open>width * height * bytes_per_pixel\<close> is \<open>2^34\<close>.
\<close>

theorem successful_decode_without_sized_buffer:
  "pngle_decoder_open 0 (example_env (\<lambda>fn. None)) (script_lib 1 1 []) (file_dsc ''image.jpg'')
     = Some (Inr \<lparr>result = LV_RES_OK, dsc_out = file_dsc ''image.jpg'', width_out = 0, height_out = 0,
          pixels_out = [], callocs_out = [], frees_out = []\<rparr>)
   \<and> pngle_decoder_open (Suc (Suc 0)) (example_env (\<lambda>fn. if fn = ''a.png'' then Some huge_png else None))
       (script_lib 65536 65536 [(8, []), (8, []), (17, [Init_event]), (8, []), (4, [Done_event])])
       (file_dsc ''a.png'')
     = Some (Inr \<lparr>result = LV_RES_OK, dsc_out = (file_dsc ''a.png'')\<lparr>img_data := Buf 0\<rparr>,
          width_out = 65536, height_out = 65536, pixels_out = [], callocs_out = [0], frees_out = []\<rparr>)
   \<and> bytes_per_pixel Depth32 * unat (65536 :: u32) * unat (65536 :: u32) = 17179869184"
  by (simp add: pngle_decoder_open_def eval_file_defs example_defs huge_png_def magic_def)

text \<open>
  C3, amended. Where \<open>calloc\<close> succeeds, \<open>lv_pngle_buffer_init\<close> makes one call of it: the
  block is zeroed and its size is the \<open>uint32_t\<close> product
  \<open>width * height * bytes_per_pixel\<close>, that is the product modulo \<open>2^32\<close>, with 4, 3, 2
  and 2 bytes per pixel at depths 32, 16, 8 and 1, which is also the number of bytes
  \<open>pngle_draw_cb\<close> stores and advances by. When the \<open>width * height\<close> pixels of an image
  were stored in that block the product did not wrap: the block has exactly
  \<open>width * height * bytes_per_pixel\<close> bytes and the cursor ends at its end. A call of
  \<open>pngle_decoder_open\<close> that succeeds on a source in memory, or on a file whose name ends
  in \<open>png\<close>, has allocated exactly once, a block of that size for its \<open>png_width\<close> and
  \<open>png_height\<close>: the width and height of the descriptor's header for a source in memory,
  and those the parser reports after the header phase for a file.
\<close>

theorem lv_pngle_buffer_init_size:
  fixes L :: "'p pngle_lib" and s :: "'p session"
  assumes al: "calloc_ok E"
  shows "callocs (lv_pngle_buffer_init E (wd * ht) s)
           = callocs s @ [(bytes_per_pixel (depth E) * unat wd * unat ht) mod 2 ^ 32]
    \<and> pixels (lv_pngle_buffer_init E (wd * ht) s)
           = replicate ((bytes_per_pixel (depth E) * unat wd * unat ht) mod 2 ^ 32) 0
    \<and> data (ud (lv_pngle_buffer_init E (wd * ht) s)) = Buf 0
    \<and> length (packed (depth E) rgba) = bytes_per_pixel (depth E)
    \<and> (length ps = unat wd * unat ht
         \<and> callbacks (depth E) wd ht (True, ini, don) (map Draw_event ps)
               (ud (lv_pngle_buffer_init E (wd * ht) s), pixels (lv_pngle_buffer_init E (wd * ht) s))
             = Inr (x', mem')
        \<longrightarrow> length (pixels (lv_pngle_buffer_init E (wd * ht) s))
               = bytes_per_pixel (depth E) * unat wd * unat ht
            \<and> data x' = Buf (int (bytes_per_pixel (depth E) * unat wd * unat ht)))
    \<and> (pngle_decoder_open fuel E L dsc = Some (Inr r) \<and> result r = LV_RES_OK \<and> decodes (src dsc)
        \<longrightarrow> callocs_out r
               = [(bytes_per_pixel (depth E) * unat (width_out r) * unat (height_out r)) mod 2 ^ 32]
            \<and> length (pixels_out r)
               = (bytes_per_pixel (depth E) * unat (width_out r) * unat (height_out r)) mod 2 ^ 32
            \<and> (src dsc = Src_variable img
                 \<longrightarrow> width_out r = header_w (header dsc) \<and> height_out r = header_h (header dsc))
            \<and> (src dsc = Src_file fn \<and> pngle_new L = Some p \<and> fs E fn = Some f
                 \<and> get_pngle_header fuel E L (session0 p) f = Some (Inr (LV_RES_OK, s1, f1))
                 \<longrightarrow> width_out r = pngle_get_width L (pngle s1)
                     \<and> height_out r = pngle_get_height L (pngle s1)))"
proof -
  let ?s1 = "lv_pngle_buffer_init E (wd * ht) s"
  let ?n = "bytes_per_pixel (depth E) * unat wd * unat ht"
  have c: "callocs ?s1 = callocs s @ [?n mod 2 ^ 32]" and p: "pixels ?s1 = replicate (?n mod 2 ^ 32) 0"
    and d: "data (ud ?s1) = Buf 0"
    using al by (simp_all add: buffer_init_fields unat_buffer_size_mult)
  have agree: "length (pixels ?s1) = ?n \<and> data x' = Buf (int ?n)"
    if len: "length ps = unat wd * unat ht"
      and run: "callbacks (depth E) wd ht (True, ini, don) (map Draw_event ps) (ud ?s1, pixels ?s1)
                  = Inr (x', mem')"
  proof -
    have d0: "data (ud ?s1) = Buf (int 0)" using d by simp
    note D = draws_InrD [OF run d0]
    have n: "bytes_per_pixel (depth E) * length ps = ?n" using len by (simp add: mult.assoc)
    have "?n mod 2 ^ 32 = ?n"
    proof (cases "ps = []")
      case True
      then have z: "?n = 0" using n by simp
      show ?thesis unfolding z by simp
    next
      case False
      then have "?n \<le> ?n mod 2 ^ 32" using D n p by simp
      moreover have "?n mod 2 ^ 32 \<le> ?n" by (rule mod_less_eq_dividend)
      ultimately show ?thesis by simp
    qed
    then show ?thesis using D n p by simp
  qed
  have once: "callocs_out r
               = [(bytes_per_pixel (depth E) * unat (width_out r) * unat (height_out r)) mod 2 ^ 32]
            \<and> length (pixels_out r)
               = (bytes_per_pixel (depth E) * unat (width_out r) * unat (height_out r)) mod 2 ^ 32"
    if "pngle_decoder_open fuel E L dsc = Some (Inr r)" "result r = LV_RES_OK" "decodes (src dsc)"
    using open_success_allocs(1,2) [OF that al] by (simp add: unat_buffer_size_mult)
  have mem: "width_out r = header_w (header dsc) \<and> height_out r = header_h (header dsc)"
    if "pngle_decoder_open fuel E L dsc = Some (Inr r)" "result r = LV_RES_OK"
      "src dsc = Src_variable img"
    using that by (rule open_variable_dims)
  have fil: "width_out r = pngle_get_width L (pngle s1) \<and> height_out r = pngle_get_height L (pngle s1)"
    if run: "pngle_decoder_open fuel E L dsc = Some (Inr r)" and ok: "result r = LV_RES_OK"
      and dec: "decodes (src dsc)" and sr: "src dsc = Src_file fn" and pn: "pngle_new L = Some p"
      and fl: "fs E fn = Some f"
      and h: "get_pngle_header fuel E L (session0 p) f = Some (Inr (LV_RES_OK, s1, f1))"
  proof -
    have "png_suffix fn = Inr True" using dec sr by simp
    from open_file_dims [OF run ok sr this pn fl h] show ?thesis .
  qed
  show ?thesis using c p d length_packed agree once mem fil by blast
qed

theorem lv_pngle_buffer_init_size_witness:
  "callocs (lv_pngle_buffer_init (example_env (\<lambda>fn. None)) (1 * 1)
       (session0 ([] :: (int \<times> event list) list))) = [4]
   \<and> pixels (lv_pngle_buffer_init (example_env (\<lambda>fn. None)) (1 * 1)
       (session0 ([] :: (int \<times> event list) list))) = [0, 0, 0, 0]
   \<and> (\<exists>r. pngle_decoder_open (Suc (Suc 0)) (example_env (\<lambda>fn. None))
              (script_lib 1 1 [(4, [Init_event, Draw_event (1, 2, 3, 4), Done_event])])
              (memory_dsc 1 1 [1, 2, 3, 4]) = Some (Inr r)
            \<and> result r = LV_RES_OK \<and> callocs_out r = [4] \<and> length (pixels_out r) = 4
            \<and> width_out r = 1 \<and> height_out r = 1)
   \<and> (\<exists>r. pngle_decoder_open (Suc (Suc 0))
              (example_env (\<lambda>fn. if fn = ''a.png'' then Some tiny_png else None))
              (script_lib 1 1 [(8, []), (8, []), (17, [Init_event]), (8, []),
                 (17, [Draw_event (1, 2, 3, 4)]), (8, []), (4, [Done_event])])
              (file_dsc ''a.png'') = Some (Inr r)
            \<and> result r = LV_RES_OK \<and> callocs_out r = [4] \<and> length (pixels_out r) = 4
            \<and> width_out r = 1 \<and> height_out r = 1)"
proof -
  let ?E = "example_env (\<lambda>fn. None)"
  let ?Ef = "example_env (\<lambda>fn. if fn = ''a.png'' then Some tiny_png else None)"
  let ?s = "session0 ([] :: (int \<times> event list) list)"
  let ?Lm = "script_lib 1 1 [(4, [Init_event, Draw_event (1, 2, 3, 4), Done_event])]"
  let ?sc = "[(8, []), (8, []), (17, [Init_event]), (8, []),
                 (17, [Draw_event (1, 2, 3, 4)]), (8, []), (4, [Done_event])] :: (int \<times> event list) list"
  let ?Lf = "script_lib 1 1 ?sc"
  let ?rm = "\<lparr>result = LV_RES_OK, dsc_out = (memory_dsc 1 1 [1, 2, 3, 4])\<lparr>img_data := Buf 0\<rparr>,
        width_out = 1, height_out = 1, pixels_out = [3, 2, 1, 4], callocs_out = [4], frees_out = []\<rparr>"
  let ?rf = "\<lparr>result = LV_RES_OK, dsc_out = (file_dsc ''a.png'')\<lparr>img_data := Buf 0\<rparr>,
        width_out = 1, height_out = 1, pixels_out = [3, 2, 1, 4], callocs_out = [4], frees_out = []\<rparr>"
  have al: "calloc_ok ?E" and alf: "calloc_ok ?Ef" by (simp_all add: example_env_def)
  have dr: "length [(1, 2, 3, 4)] = unat (1 :: u32) * unat (1 :: u32)
     \<and> callbacks (depth ?E) 1 1 (True, True, True) (map Draw_event [(1, 2, 3, 4)])
         (ud (lv_pngle_buffer_init ?E (1 * 1) ?s), pixels (lv_pngle_buffer_init ?E (1 * 1) ?s))
       = Inr (\<lparr>hdr_ready = False, data_ready = False, data = Buf 4\<rparr>, [3, 2, 1, 4])"
    by (simp add: eval_defs example_defs)
  have runm: "pngle_decoder_open (Suc (Suc 0)) ?E ?Lm (memory_dsc 1 1 [1, 2, 3, 4]) = Some (Inr ?rm)"
    by (rule memory_decode_example)
  have runf: "pngle_decoder_open (Suc (Suc 0)) ?Ef ?Lf (file_dsc ''a.png'') = Some (Inr ?rf)"
    by (simp add: pngle_decoder_open_def eval_file_defs example_defs tiny_png_def magic_def
        replicate_numeral)
  have "\<exists>s1 f1. get_pngle_header (Suc (Suc 0)) ?Ef ?Lf (session0 ?sc) tiny_png
           = Some (Inr (LV_RES_OK, s1, f1))"
    by (simp add: eval_file_defs example_defs tiny_png_def magic_def)
  then obtain s1 f1 where h: "get_pngle_header (Suc (Suc 0)) ?Ef ?Lf (session0 ?sc) tiny_png
           = Some (Inr (LV_RES_OK, s1, f1))"
    by blast
  have srm: "src (memory_dsc 1 1 [1, 2, 3, 4])
      = Src_variable \<lparr>img_header = example_header 1 1, data_size = 4, img_bytes = [1, 2, 3, 4]\<rparr>"
    and srf: "src (file_dsc ''a.png'') = Src_file ''a.png''"
    and pn: "pngle_new ?Lf = Some ?sc" and fl: "fs ?Ef ''a.png'' = Some tiny_png"
    and wh: "pngle_get_width ?Lf (pngle s1) = 1" "pngle_get_height ?Lf (pngle s1) = 1"
    and hm: "header_w (header (memory_dsc 1 1 [1, 2, 3, 4])) = 1"
      "header_h (header (memory_dsc 1 1 [1, 2, 3, 4])) = 1"
    by (simp_all add: example_defs script_lib_def)
  have decm: "decodes (src (memory_dsc 1 1 [1, 2, 3, 4]))"
    and decf: "decodes (src (file_dsc ''a.png''))"
    by (simp_all add: example_defs png_suffix_def)
  note Tm = lv_pngle_buffer_init_size [OF al,
      where wd = 1 and ht = 1 and s = ?s and rgba = "(1, 2, 3, 4)"
        and ps = "[(1, 2, 3, 4)]" and ini = True and don = True
        and x' = "\<lparr>hdr_ready = False, data_ready = False, data = Buf 4\<rparr>" and mem' = "[3, 2, 1, 4]"
        and fuel = "Suc (Suc 0)" and L = ?Lm and dsc = "memory_dsc 1 1 [1, 2, 3, 4]" and r = ?rm
        and img = "\<lparr>img_header = example_header 1 1, data_size = 4, img_bytes = [1, 2, 3, 4]\<rparr>"]
  note Tf = lv_pngle_buffer_init_size [OF alf,
      where wd = 1 and ht = 1 and s = ?s and rgba = "(1, 2, 3, 4)"
        and fuel = "Suc (Suc 0)" and L = ?Lf and dsc = "file_dsc ''a.png''" and r = ?rf
        and fn = "''a.png''" and p = ?sc and f = tiny_png and ?s1.0 = s1 and ?f1.0 = f1]
  have a: "callocs (lv_pngle_buffer_init ?E (1 * 1) ?s) = [4]"
    and b: "pixels (lv_pngle_buffer_init ?E (1 * 1) ?s) = [0, 0, 0, 0]"
    using Tm by (simp_all add: example_env_def replicate_numeral)
  have m: "callocs_out ?rm = [4] \<and> length (pixels_out ?rm) = 4 \<and> width_out ?rm = 1 \<and> height_out ?rm = 1"
  proof -
    from Tm dr runm decm srm
    have "callocs_out ?rm
            = [(bytes_per_pixel (depth ?E) * unat (width_out ?rm) * unat (height_out ?rm)) mod 2 ^ 32]
          \<and> length (pixels_out ?rm)
            = (bytes_per_pixel (depth ?E) * unat (width_out ?rm) * unat (height_out ?rm)) mod 2 ^ 32
          \<and> width_out ?rm = header_w (header (memory_dsc 1 1 [1, 2, 3, 4]))
          \<and> height_out ?rm = header_h (header (memory_dsc 1 1 [1, 2, 3, 4]))"
      by simp
    then show ?thesis by (simp add: example_env_def)
  qed
  have f: "callocs_out ?rf = [4] \<and> length (pixels_out ?rf) = 4 \<and> width_out ?rf = 1 \<and> height_out ?rf = 1"
  proof -
    from Tf runf decf srf pn fl h
    have "callocs_out ?rf
            = [(bytes_per_pixel (depth ?Ef) * unat (width_out ?rf) * unat (height_out ?rf)) mod 2 ^ 32]
          \<and> length (pixels_out ?rf)
            = (bytes_per_pixel (depth ?Ef) * unat (width_out ?rf) * unat (height_out ?rf)) mod 2 ^ 32
          \<and> width_out ?rf = pngle_get_width ?Lf (pngle s1)
          \<and> height_out ?rf = pngle_get_height ?Lf (pngle s1)"
      by simp
    then show ?thesis by (simp add: example_env_def)
  qed
  have em: "\<exists>r. pngle_decoder_open (Suc (Suc 0)) ?E ?Lm (memory_dsc 1 1 [1, 2, 3, 4]) = Some (Inr r)
            \<and> result r = LV_RES_OK \<and> callocs_out r = [4] \<and> length (pixels_out r) = 4
            \<and> width_out r = 1 \<and> height_out r = 1"
    using runm m by (intro exI [of _ ?rm]) simp
  have ef: "\<exists>r. pngle_decoder_open (Suc (Suc 0)) ?Ef ?Lf (file_dsc ''a.png'') = Some (Inr r)
            \<and> result r = LV_RES_OK \<and> callocs_out r = [4] \<and> length (pixels_out r) = 4
            \<and> width_out r = 1 \<and> height_out r = 1"
    using runf f by (intro exI [of _ ?rf]) simp
  show ?thesis using a b em ef by simp
qed

text \<open>
  C4. When the parser signals completion, \<open>pngle_done_cb\<close> sets \<open>data_ready\<close> and moves
  the cursor back by \<open>bytes_per_pixel * width * height\<close> bytes, the product being the
  \<open>uint32_t\<close> one of the source. After a full decode, in which the cursor started at
  the buffer's base and every one of the \<open>width * height\<close> pixels was stored in the
  buffer, the cursor advanced by that many bytes and the callback puts it back at the
  base.
\<close>

theorem pngle_done_cb_rewinds:
  assumes "data x = Buf k"
  shows "pngle_done_cb d wd ht x =
           Inr (x\<lparr>data_ready := True,
                  data := Buf (k - int ((bytes_per_pixel d * unat wd * unat ht) mod 2 ^ 32))\<rparr>)
         \<and> (k = 0 \<and> length mem < 2 ^ 32 \<and> length ps = unat wd * unat ht
              \<and> callbacks d wd ht (True, ini, True) (map Draw_event ps) (x, mem) = Inr (x', mem')
            \<longrightarrow> data x' = Buf (int (bytes_per_pixel d * unat wd * unat ht))
                \<and> pngle_done_cb d wd ht x' = Inr (x'\<lparr>data_ready := True, data := Buf 0\<rparr>))"
proof (intro conjI impI)
  show "pngle_done_cb d wd ht x =
           Inr (x\<lparr>data_ready := True,
                  data := Buf (k - int ((bytes_per_pixel d * unat wd * unat ht) mod 2 ^ 32))\<rparr>)"
    using assms by (rule done_cb_Buf)
next
  assume a: "k = 0 \<and> length mem < 2 ^ 32 \<and> length ps = unat wd * unat ht
              \<and> callbacks d wd ht (True, ini, True) (map Draw_event ps) (x, mem) = Inr (x', mem')"
  then have x0: "data x = Buf (int 0)" using assms by simp
  from a have run: "callbacks d wd ht (True, ini, True) (map Draw_event ps) (x, mem) = Inr (x', mem')"
    by simp
  note D = draws_InrD [OF run x0]
  let ?n = "bytes_per_pixel d * unat wd * unat ht"
  have n: "bytes_per_pixel d * length ps = ?n" using a by (simp add: mult.assoc)
  have small: "?n < 2 ^ 32"
  proof (cases "ps = []")
    case True
    then have z: "?n = 0" using n by simp
    show ?thesis unfolding z by simp
  next
    case False
    then have "?n \<le> length mem" using D n by simp
    then show ?thesis using a by simp
  qed
  show c: "data x' = Buf (int ?n)" using D n by simp
  show "pngle_done_cb d wd ht x' = Inr (x'\<lparr>data_ready := True, data := Buf 0\<rparr>)"
    using done_cb_Buf [OF c, of d wd ht] small by simp
qed

theorem pngle_done_cb_rewinds_witness:
  "pngle_done_cb Depth32 1 1 \<lparr>hdr_ready = False, data_ready = False, data = Buf 4\<rparr>
     = Inr \<lparr>hdr_ready = False, data_ready = True, data = Buf 0\<rparr>"
  using pngle_done_cb_rewinds
    [where x = "\<lparr>hdr_ready = False, data_ready = False, data = Buf 0\<rparr>" and k = 0 and d = Depth32
       and wd = 1 and ht = 1 and mem = "[0, 0, 0, 0]" and ps = "[(1, 2, 3, 4)]" and ini = True
       and x' = "\<lparr>hdr_ready = False, data_ready = False, data = Buf 4\<rparr>" and mem' = "[3, 2, 1, 4]"]
  by (simp add: pngle_draw_cb_def store_inc_def)

text \<open>
  C5. For a file source whose name does not end in \<open>png\<close>, \<open>pngle_decoder_open\<close> reads
  nothing, allocates nothing, stores the null pointer in \<open>img_data\<close> and returns
  \<open>LV_RES_OK\<close>: success without a buffer.
\<close>

theorem pngle_decoder_open_non_png_file:
  "pngle_decoder_open fuel E (L\<lparr>pngle_new := Some p\<rparr>)
      \<lparr>src = Src_file ''image.jpg'', header = hdr, img_data = q\<rparr>
   = Some (Inr \<lparr>result = LV_RES_OK,
                dsc_out = \<lparr>src = Src_file ''image.jpg'', header = hdr, img_data = NULL\<rparr>,
                width_out = 0, height_out = 0, pixels_out = [], callocs_out = [], frees_out = []\<rparr>)"
  by (simp add: open_file [where p = p and fn = "''image.jpg''"] png_suffix_def finish_def)

text \<open>
  C6, as stated, fails: the file \<open>truncated_png\<close> ends right after the header of a chunk
  that declares 13 bytes of data, and with a parser that accepts what it is fed the
  decode returns \<open>LV_RES_OK\<close> and a buffer.
\<close>

theorem truncated_file_decodes:
  "length truncated_png = 16 \<and> big_endian_u32 (drop 8 truncated_png) = 13
   \<and> pngle_decoder_open (Suc (Suc 0)) (example_env (\<lambda>fn. if fn = ''a.png'' then Some truncated_png else None))
     (script_lib 1 1 [(8, []), (8, []), (17, [Init_event]), (8, [Draw_event (1, 2, 3, 4)]), (4, [Done_event])])
     (file_dsc ''a.png'')
   = Some (Inr \<lparr>result = LV_RES_OK, dsc_out = (file_dsc ''a.png'')\<lparr>img_data := Buf 0\<rparr>,
        width_out = 1, height_out = 1, pixels_out = [3, 2, 1, 4], callocs_out = [4], frees_out = []\<rparr>)"
  by (simp add: pngle_decoder_open_def eval_file_defs example_defs truncated_png_def magic_def
      replicate_numeral big_endian_u32_def)

text \<open>
  C6, amended. \<open>read_next_chunk\<close> does not notice the end of the source. On every file,
  however short, it returns \<open>LV_RES_INV\<close> exactly when the length computed from its read
  buffer is negative or the parser rejects one of the feeds that this call makes, and
  otherwise its result is that of these feeds: the first eight bytes of the buffer, then
  the buffer's contents in bursts of at most 1024 bytes until the computed length is
  used up. Where the file has ended the buffer holds what it held before, and that is
  what is fed.
\<close>

theorem read_next_chunk_fails_iff:
  "((\<exists>s' f'. read_next_chunk E L s f = Inr (LV_RES_INV, s', f')) \<longleftrightarrow>
      sint (chunk_length (char_signed E) (snd (lv_fs_read f (stack_buf E 1024) 8))) < 0
      \<or> (\<exists>r \<in> set (feed_results E L s (chunk_feeds E f)). r < 0))
   \<and> forget_file (read_next_chunk E L s f) =
       (if sint (chunk_length (char_signed E) (snd (lv_fs_read f (stack_buf E 1024) 8))) < 0
        then Inr (LV_RES_INV, s) else feed_all E L s (chunk_feeds E f))
   \<and> chunk_feeds E [] =
       take 8 (stack_buf E 1024)
         # burst_reads [] (stack_buf E 1024) (sint (chunk_length (char_signed E) (stack_buf E 1024)))"
proof (intro conjI)
  show "(\<exists>s' f'. read_next_chunk E L s f = Inr (LV_RES_INV, s', f')) \<longleftrightarrow>
      sint (chunk_length (char_signed E) (snd (lv_fs_read f (stack_buf E 1024) 8))) < 0
      \<or> (\<exists>r \<in> set (feed_results E L s (chunk_feeds E f)). r < 0)"
  proof (cases "sint (chunk_length (char_signed E) (snd (lv_fs_read f (stack_buf E 1024) 8))) < 0")
    case True
    then show ?thesis
      unfolding forget_file_INV_iff read_next_chunk_feeds by simp
  next
    case False
    then show ?thesis
      unfolding forget_file_INV_iff read_next_chunk_feeds by (simp add: feed_all_INV_iff)
  qed
  show "forget_file (read_next_chunk E L s f) =
       (if sint (chunk_length (char_signed E) (snd (lv_fs_read f (stack_buf E 1024) 8))) < 0
        then Inr (LV_RES_INV, s) else feed_all E L s (chunk_feeds E f))"
    by (rule read_next_chunk_feeds)
  show "chunk_feeds E [] =
       take 8 (stack_buf E 1024)
         # burst_reads [] (stack_buf E 1024) (sint (chunk_length (char_signed E) (stack_buf E 1024)))"
    by (simp add: chunk_feeds_def lv_fs_read_def)
qed

theorem read_next_chunk_fails_iff_witness:
  "(\<exists>s' f'. read_next_chunk (example_env (\<lambda>fn. None)) (script_lib 1 1 [(8, []), (- 1, [])])
        (session0 [(8, []), (- 1, [])]) [] = Inr (LV_RES_INV, s', f'))
   \<and> \<not> (\<exists>s' f'. read_next_chunk (example_env (\<lambda>fn. None)) (script_lib 1 1 [])
        (session0 []) [] = Inr (LV_RES_INV, s', f'))
   \<and> feed_results (example_env (\<lambda>fn. None)) (script_lib 1 1 [(8, []), (- 1, [])])
        (session0 [(8, []), (- 1, [])]) (chunk_feeds (example_env (\<lambda>fn. None)) []) = [8, - 1]
   \<and> feed_results (example_env (\<lambda>fn. None)) (script_lib 1 1 [])
        (session0 []) (chunk_feeds (example_env (\<lambda>fn. None)) []) = [8, 4]"
  using read_next_chunk_fails_iff [of "example_env (\<lambda>fn. None)" "script_lib 1 1 [(8, []), (- 1, [])]"
      "session0 [(8, []), (- 1, [])]" "[]"]
    read_next_chunk_fails_iff [of "example_env (\<lambda>fn. None)" "script_lib 1 1 []" "session0 []" "[]"]
  by (simp add: chunk_feeds_def burst_reads.simps eval_file_defs example_defs)

text \<open>
  C7. The feed loop for a source in memory never ends on an exhausted source: with
  \<open>data_size = 0\<close> every call of \<open>pngle_feed\<close> is given no bytes, and with any parser
  for which a feed of no bytes does nothing the loop is still running when any amount of
  fuel is spent.
\<close>

theorem pngle_decoder_open_memory_loop_forever:
  "pngle_decoder_open n E (noop_on_empty L p)
      \<lparr>src = Src_variable \<lparr>img_header = hdr', data_size = 0, img_bytes = bytes\<rparr>, header = hdr, img_data = q\<rparr>
   = None"
proof -
  have "pngle_new (noop_on_empty L p) = Some p" by (simp add: noop_on_empty_def)
  note o = open_variable [OF this,
      where dsc = "\<lparr>src = Src_variable \<lparr>img_header = hdr', data_size = 0, img_bytes = bytes\<rparr>, header = hdr, img_data = q\<rparr>"
        and img_src = "\<lparr>img_header = hdr', data_size = 0, img_bytes = bytes\<rparr>", simplified]
  show ?thesis unfolding o
    by (subst memory_loop_size_0) (simp_all add: lv_pngle_buffer_init_def)
qed

text \<open>
  C8, as stated, fails: \<open>pngle_decoder_info\<close> does not read \<open>data_size\<close>, and \<open>memcmp\<close>
  reads eight bytes of the data whatever their number. For a source of the four bytes
  \<open>89 50 4E 47\<close>, which are not the signature, the read leaves the array and the call has
  no defined result, where the claim has it return a failure.
\<close>

theorem pngle_decoder_info_short_source:
  "take 8 [0x89, 0x50, 0x4E, 0x47 :: u8] \<noteq> magic
   \<and> pngle_decoder_info 0 (example_env (\<lambda>fn. None)) \<lparr>lv_coord = (\<lambda>c. c), LV_IMG_CF_RAW_ALPHA = 2\<rparr>
       (script_lib 0 0 [])
       (Src_variable \<lparr>img_header = example_header 3 2, data_size = 4, img_bytes = [0x89, 0x50, 0x4E, 0x47]\<rparr>)
       (example_header 0 0)
     = Some (Inl Out_of_bounds)"
  by (simp add: pngle_decoder_info_def memcmp_def magic_def)

text \<open>
  C8, amended. For a source in memory whose data holds at least the eight bytes that
  \<open>memcmp\<close> reads, \<open>pngle_decoder_info\<close> fails exactly when these eight bytes differ from
  the PNG signature \<open>89 50 4E 47 0D 0A 1A 0A\<close>; when they match it succeeds, the header's
  colour format, width and height are those of the descriptor, the parser is not
  involved and no pixel buffer is allocated.
\<close>

theorem pngle_decoder_info_variable:
  assumes "8 \<le> length (img_bytes img)"
  shows "pngle_decoder_info fuel E G L (Src_variable img) hdr =
     Some (Inr (if take 8 (img_bytes img) = magic
                then (LV_RES_OK, hdr\<lparr>always_zero := 0, header_cf := header_cf (img_header img),
                         header_w := header_w (img_header img), header_h := header_h (img_header img)\<rparr>, [])
                else (LV_RES_INV, hdr, [])))
     \<and> magic = [0x89, 0x50, 0x4E, 0x47, 0x0D, 0x0A, 0x1A, 0x0A]"
proof -
  have d: "first_diff magic (take 8 (img_bytes img)) = 0 \<longleftrightarrow> magic = take 8 (img_bytes img)"
    using assms by (intro first_diff_eq) (simp add: length_magic)
  have m: "memcmp magic (img_bytes img) (length magic) = Inr (first_diff magic (take 8 (img_bytes img)))"
    using memcmp_magic [OF assms] by simp
  show ?thesis
    unfolding pngle_decoder_info_def img_src.case m sum.case
    using d by (auto simp: magic_def)
qed

theorem pngle_decoder_info_variable_witness:
  "pngle_decoder_info 0
     \<lparr>depth = Depth32, char_signed = False, stack_junk = [], fs = (\<lambda>fn. None), calloc_ok = True\<rparr>
     \<lparr>lv_coord = (\<lambda>c. c), LV_IMG_CF_RAW_ALPHA = 2\<rparr> (script_lib 0 0 [])
     (Src_variable \<lparr>img_header = \<lparr>always_zero = 0, header_cf = 5, header_w = 3, header_h = 2\<rparr>,
        data_size = 9, img_bytes = [0x89, 0x50, 0x4E, 0x47, 0x0D, 0x0A, 0x1A, 0x0A, 0]\<rparr>)
     \<lparr>always_zero = 1, header_cf = 0, header_w = 0, header_h = 0\<rparr>
   = Some (Inr (LV_RES_OK, \<lparr>always_zero = 0, header_cf = 5, header_w = 3, header_h = 2\<rparr>, []))"
  using pngle_decoder_info_variable
    [where img = "\<lparr>img_header = \<lparr>always_zero = 0, header_cf = 5, header_w = 3, header_h = 2\<rparr>,
        data_size = 9, img_bytes = [0x89, 0x50, 0x4E, 0x47, 0x0D, 0x0A, 0x1A, 0x0A, 0]\<rparr>"
       and fuel = 0
       and E = "\<lparr>depth = Depth32, char_signed = False, stack_junk = [], fs = (\<lambda>fn. None), calloc_ok = True\<rparr>"
       and G = "\<lparr>lv_coord = (\<lambda>c. c), LV_IMG_CF_RAW_ALPHA = 2\<rparr>" and L = "script_lib 0 0 []"
       and hdr = "\<lparr>always_zero = 1, header_cf = 0, header_w = 0, header_h = 0\<rparr>"]
  by simp

text \<open>
  C9. When the parser rejects a feed after a pixel has been stored, \<open>ud.data\<close> is no
  longer the pointer \<open>calloc\<close> returned, and \<open>pngle_decoder_open\<close> passes it to \<open>free\<close>:
  the buffer is not released. So it is for a source of 2048 bytes whose first feed
  delivers a pixel and whose second feed is rejected, and for a feed that delivers a
  pixel and is rejected itself.
\<close>

theorem pngle_decoder_open_frees_moved_cursor:
  "pngle_decoder_open (Suc (Suc 0)) (example_env (\<lambda>fn. None))
     (script_lib 2 1 [(1024, [Init_event, Draw_event (1, 2, 3, 4)]), (- 1, [])])
     (memory_dsc 2 1 (replicate 2048 0))
   = Some (Inl Invalid_free)
   \<and> pngle_decoder_open (Suc 0) (example_env (\<lambda>fn. None))
     (script_lib 2 1 [(- 1, [Init_event, Draw_event (1, 2, 3, 4)])])
     (memory_dsc 2 1 [1, 2, 3, 4, 5, 6, 7, 8])
   = Some (Inl Invalid_free)"
  by (simp add: pngle_decoder_open_def eval_file_defs example_defs)

text \<open>
  C10. \<open>pngle_decoder_close\<close> releases the pixel buffer only when the descriptor's
  \<open>img_data\<close> is not null and then sets the field to null: closing twice leaves the
  descriptor and the list of released pointers as closing once does, with \<open>img_data\<close>
  null and at most one release.
\<close>

theorem pngle_decoder_close_idempotent:
  "pngle_decoder_close (pngle_decoder_close (dsc, freed)) = pngle_decoder_close (dsc, freed)
   \<and> img_data (fst (pngle_decoder_close (dsc, freed))) = NULL
   \<and> snd (pngle_decoder_close (dsc, freed)) = freed @ filter (\<lambda>p. p \<noteq> NULL) [img_data dsc]
   \<and> length (snd (pngle_decoder_close (pngle_decoder_close (dsc, freed)))) \<le> Suc (length freed)"
  by (simp add: pngle_decoder_close_def)

end
